theory Spec2Isabelle
  imports Main "HOL-Library.Word" "HOL-Library.AList" "HOL-Library.Multiset"
begin

section \<open>Data model\<close>

text \<open>
  The provider of \<^verbatim>\<open>provider/yandex/yandex.go\<close> and the mock client of its test suite.
  Go's \<^verbatim>\<open>int64\<close> is a 64-bit word; Go strings are \<^typ>\<open>string\<close>. Only the fields that
  the provider and the mock client read or write are kept in the records.
\<close>

type_synonym int64 = "64 word"

record DnsZone =
  Id :: string
  Name :: string
  Zone :: string
  PublicVisibility :: "unit option"

record RecordSet =
  Name :: string
  Type :: string
  Ttl :: int64
  Data :: "string list"

record UpdateRecordSetsRequest =
  DnsZoneId :: string
  Deletions :: "RecordSet list"
  Additions :: "RecordSet list"

record Endpoint =
  DNSName :: string
  Targets :: "string list"
  RecordType :: string
  RecordTTL :: int64

record Changes =
  Create :: "Endpoint list"
  UpdateOld :: "Endpoint list"
  UpdateNew :: "Endpoint list"
  Delete :: "Endpoint list"

text \<open>
  A Go call ends in one of three ways: it returns a value with a nil error, it returns an
  error, or it panics (index out of range, nil dereference, write to a nil map).
\<close>

datatype ('e, 'a) result = Ok 'a | Err 'e | Panic

subsection \<open>Go maps\<close>

text \<open>
  A Go map with string keys is an association list with distinct keys: \<^const>\<open>map_of\<close> reads
  it, \<^const>\<open>AList.update\<close> is the assignment \<^verbatim>\<open>m[k] = v\<close> and \<^const>\<open>AList.delete\<close> is
  \<^verbatim>\<open>delete(m, k)\<close>. Go leaves the order in which \<^verbatim>\<open>range\<close> visits a map unspecified;
  the order is the parameter \<open>ord\<close>, which receives the keys of the map and returns them
  in the order of the visit. The claims that need every entry to be visited once assume that
  \<open>ord\<close> permutes the keys.
\<close>

type_synonym order = "string list \<Rightarrow> string list"

definition rangeMap :: "order \<Rightarrow> (string \<times> 'v) list \<Rightarrow> (string \<times> 'v) list" where
  "rangeMap ord m = List.map_filter (\<lambda>k. map_option (Pair k) (map_of m k)) (ord (map fst m))"

definition rangeValues :: "order \<Rightarrow> (string \<times> 'v) list \<Rightarrow> 'v list" where
  "rangeValues ord m = map snd (rangeMap ord m)"

text \<open>Go's \<^verbatim>\<open>strings.HasSuffix\<close>.\<close>

definition HasSuffix :: "string \<Rightarrow> string \<Rightarrow> bool" where
  "HasSuffix s suffix \<longleftrightarrow>
     length suffix \<le> length s \<and> drop (length s - length suffix) s = suffix"

subsection \<open>The surrounding framework\<close>

text \<open>
  The packages \<^verbatim>\<open>endpoint\<close> and \<^verbatim>\<open>provider\<close> of the framework are not among the source
  files. Three functions of theirs that the provider calls are parameters of the model:
  \<^verbatim>\<open>provider.EnsureTrailingDot\<close>, \<^verbatim>\<open>provider.SupportedRecordType\<close> and
  \<^verbatim>\<open>TTL.IsConfigured\<close>.
\<close>

record framework =
  EnsureTrailingDot :: "string \<Rightarrow> string"
  SupportedRecordType :: "string \<Rightarrow> bool"
  IsConfigured :: "int64 \<Rightarrow> bool"

text \<open>Go's \<^verbatim>\<open>strings.TrimSuffix\<close>.\<close>

definition TrimSuffix :: "string \<Rightarrow> string \<Rightarrow> string" where
  "TrimSuffix s suffix =
     (if HasSuffix s suffix then take (length s - length suffix) s else s)"

text \<open>
  Modelled from the spec: \<^verbatim>\<open>endpoint.NewEndpointWithTTL\<close>, the constructor of the generic
  endpoint (DNS name, record type, TTL, target values), whose source is not among the files.
  The framework keeps DNS names and targets without the trailing dot that the record sets of
  the service carry, which is why \<^verbatim>\<open>endpointToRecordSet\<close> puts the dot back: the
  constructor cuts one trailing dot from the name and from every target, and stores the record
  type and the TTL as given.
\<close>

definition NewEndpointWithTTL ::
  "string \<Rightarrow> string \<Rightarrow> int64 \<Rightarrow> string list \<Rightarrow> Endpoint"
where
  "NewEndpointWithTTL dnsName recordType ttl targets =
     \<lparr>DNSName = TrimSuffix dnsName ''.'',
      Targets = map (\<lambda>target. TrimSuffix target ''.'') targets,
      RecordType = recordType,
      RecordTTL = ttl\<rparr>"

text \<open>
  Modelled from the spec: the constant \<^verbatim>\<open>endpoint.RecordTypeCNAME\<close> of the framework, whose
  source is not among the files; the record type it names is written \<open>CNAME\<close>.
\<close>

definition RecordTypeCNAME :: string where
  "RecordTypeCNAME = ''CNAME''"

text \<open>
  Modelled from the spec: \<^verbatim>\<open>FindZone\<close> of the framework's \<^verbatim>\<open>provider.ZoneIDName\<close>, whose
  source is not among the files. The spec has the provider "determine the owning zone per
  record by longest-suffix match": among the entries (zone id, zone name) whose name is a
  suffix of the host name, the one with the longest name, the first visited one of them
  when several are equally long. \<^verbatim>\<open>separateChange\<close> reads an empty id as "no zone", so
  that is the answer when no entry matches.
\<close>

fun longestMatch ::
  "string \<Rightarrow> (string \<times> string) list \<Rightarrow> (string \<times> string) option \<Rightarrow> (string \<times> string) option"
where
  "longestMatch hostname [] best = best"
| "longestMatch hostname ((zoneID, zoneName) # rest) best =
     longestMatch hostname rest
       (if HasSuffix hostname zoneName \<and>
           (case best of None \<Rightarrow> True | Some (_, bestName) \<Rightarrow> length bestName < length zoneName)
        then Some (zoneID, zoneName) else best)"

definition FindZone :: "(string \<times> string) list \<Rightarrow> string \<Rightarrow> string \<times> string" where
  "FindZone visited hostname =
     (case longestMatch hostname visited None of None \<Rightarrow> ('''', '''') | Some found \<Rightarrow> found)"

section \<open>The provider\<close>

definition yandexRecordTTL :: int64 where
  "yandexRecordTTL = 300"

text \<open>
  The interface \<^verbatim>\<open>dnsZoneClient\<close> over a client state \<open>'s\<close> (for the remote service, the
  zones and record sets it holds) and an error type \<open>'e\<close>. The two listing calls read the
  state; \<^verbatim>\<open>UpdateRecordSets\<close> returns the state it leaves. \<^verbatim>\<open>List\<close> receives the folder of
  its request, \<^verbatim>\<open>ListRecordSets\<close> the zone id of its request.
\<close>

record ('s, 'e) dnsZoneClient =
  List :: "'s \<Rightarrow> string \<Rightarrow> ('e, DnsZone list) result"
  UpdateRecordSets :: "'s \<Rightarrow> UpdateRecordSetsRequest \<Rightarrow> ('e, unit) result \<times> 's"
  ListRecordSets :: "'s \<Rightarrow> string \<Rightarrow> ('e, RecordSet list) result"

text \<open>
  The three filters of the provider are values of framework types; each is modelled by
  its \<^verbatim>\<open>Match\<close> method.
\<close>

record YandexProvider =
  folder :: string
  dryRun :: bool
  domainFilter :: "string \<Rightarrow> bool"
  zoneTypeFilter :: "string \<Rightarrow> bool"
  zoneIDFilter :: "string \<Rightarrow> bool"

definition getZoneType :: "DnsZone \<Rightarrow> string" where
  "getZoneType zone = (if PublicVisibility zone \<noteq> None then ''public'' else ''private'')"

definition zones ::
  "YandexProvider \<Rightarrow> ('s, 'e) dnsZoneClient \<Rightarrow> 's \<Rightarrow> ('e, (string \<times> DnsZone) list) result"
where
  "zones p c s =
     (case List c s (folder p) of
        Err e \<Rightarrow> Err e
      | Panic \<Rightarrow> Panic
      | Ok dnsZones \<Rightarrow>
          Ok (fold (\<lambda>zone zs.
                 if domainFilter p (Zone zone) \<and> zoneTypeFilter p (getZoneType zone) \<and>
                    (zoneIDFilter p (Id zone) \<or> zoneIDFilter p (DnsZone.Name zone))
                 then AList.update (Id zone) zone zs else zs)
               dnsZones []))"

text \<open>
  \<^verbatim>\<open>endpointToRecordSet\<close> copies the targets and, for a CNAME, overwrites \<^verbatim>\<open>targets[0]\<close>;
  on an empty slice that index is out of range and Go panics: the result \<^const>\<open>None\<close>.
\<close>

definition endpointToRecordSet :: "framework \<Rightarrow> Endpoint \<Rightarrow> RecordSet option" where
  "endpointToRecordSet fw e =
     (let targets = Targets e;
          ttl = (if IsConfigured fw (RecordTTL e) then RecordTTL e else yandexRecordTTL)
      in if RecordType e = RecordTypeCNAME \<and> length targets = 0 then None
         else Some \<lparr>Name = EnsureTrailingDot fw (DNSName e),
                    Type = RecordType e,
                    Ttl = ttl,
                    Data = (if RecordType e = RecordTypeCNAME
                            then targets[0 := EnsureTrailingDot fw (targets ! 0)]
                            else targets)\<rparr>)"

fun endpointsToRecordSets ::
  "framework \<Rightarrow> YandexProvider \<Rightarrow> Endpoint list \<Rightarrow> RecordSet list option"
where
  "endpointsToRecordSets fw p [] = Some []"
| "endpointsToRecordSets fw p (e # endpoints) =
     (if domainFilter p (DNSName e)
      then (case endpointToRecordSet fw e of
              None \<Rightarrow> None
            | Some recordSet \<Rightarrow>
                map_option ((#) recordSet) (endpointsToRecordSets fw p endpoints))
      else endpointsToRecordSets fw p endpoints)"

text \<open>
  The two loops of \<^verbatim>\<open>separateChange\<close> over the additions and the deletions. \<open>findZone\<close>
  is the id that \<^verbatim>\<open>FindZone\<close> returns for a record name. \<^verbatim>\<open>changes[zoneName]\<close> is a pointer
  to a request; for a key that the map does not hold it is nil and the append panics.
\<close>

fun routeAdditions ::
  "(string \<Rightarrow> string) \<Rightarrow> RecordSet list \<Rightarrow> (string \<times> UpdateRecordSetsRequest) list \<Rightarrow>
   (string \<times> UpdateRecordSetsRequest) list option"
where
  "routeAdditions findZone [] changes = Some changes"
| "routeAdditions findZone (a # rest) changes =
     (let zoneName = findZone (RecordSet.Name a)
      in if zoneName \<noteq> ''''
         then (case map_of changes zoneName of
                 None \<Rightarrow> None
               | Some request \<Rightarrow>
                   routeAdditions findZone rest
                     (AList.update zoneName (request\<lparr>Additions := Additions request @ [a]\<rparr>) changes))
         else routeAdditions findZone rest changes)"

fun routeDeletions ::
  "(string \<Rightarrow> string) \<Rightarrow> RecordSet list \<Rightarrow> (string \<times> UpdateRecordSetsRequest) list \<Rightarrow>
   (string \<times> UpdateRecordSetsRequest) list option"
where
  "routeDeletions findZone [] changes = Some changes"
| "routeDeletions findZone (d # rest) changes =
     (let zoneName = findZone (RecordSet.Name d)
      in if zoneName \<noteq> ''''
         then (case map_of changes zoneName of
                 None \<Rightarrow> None
               | Some request \<Rightarrow>
                   routeDeletions findZone rest
                     (AList.update zoneName (request\<lparr>Deletions := Deletions request @ [d]\<rparr>) changes))
         else routeDeletions findZone rest changes)"

text \<open>
  \<^verbatim>\<open>separateChange\<close>. The first loop fills the id-to-name mapper and the empty requests
  from the zones in the order of the visit. The last loop deletes the entries of the
  requests that stayed empty; whatever the order of that visit, the entries left are the
  same, so it is a filter.
\<close>

definition separateChange ::
  "framework \<Rightarrow> order \<Rightarrow> (string \<times> DnsZone) list \<Rightarrow> UpdateRecordSetsRequest \<Rightarrow>
   (string \<times> UpdateRecordSetsRequest) list option"
where
  "separateChange fw ord zs change =
     (let visited = rangeValues ord zs;
          zoneNameIDMapper = fold (\<lambda>zone m. AList.update (Id zone) (Zone zone) m) visited [];
          changes = fold (\<lambda>zone m. AList.update (Id zone)
                              \<lparr>DnsZoneId = Id zone, Deletions = [], Additions = []\<rparr> m) visited [];
          findZone = (\<lambda>name. fst (FindZone (rangeMap ord zoneNameIDMapper)
                                     (EnsureTrailingDot fw name)))
      in case routeAdditions findZone (Additions change) changes of
           None \<Rightarrow> None
         | Some changes1 \<Rightarrow>
             (case routeDeletions findZone (Deletions change) changes1 of
                None \<Rightarrow> None
              | Some changes2 \<Rightarrow>
                  Some (filter (\<lambda>(zone, change).
                          \<not> (length (Additions change) = 0 \<and> length (Deletions change) = 0))
                        changes2)))"

text \<open>
  The combined request that \<^verbatim>\<open>ApplyChanges\<close> builds first (the composite literal and the two
  appends); \<^const>\<open>None\<close> when a conversion panics.
\<close>

definition updateRequest ::
  "framework \<Rightarrow> YandexProvider \<Rightarrow> Changes \<Rightarrow> UpdateRecordSetsRequest option"
where
  "updateRequest fw p changes =
     (case endpointsToRecordSets fw p (Create changes) of
        None \<Rightarrow> None
      | Some created \<Rightarrow>
     (case endpointsToRecordSets fw p (Delete changes) of
        None \<Rightarrow> None
      | Some deleted \<Rightarrow>
     (case endpointsToRecordSets fw p (UpdateOld changes) of
        None \<Rightarrow> None
      | Some updateOld \<Rightarrow>
     (case endpointsToRecordSets fw p (UpdateNew changes) of
        None \<Rightarrow> None
      | Some updateNew \<Rightarrow>
          Some \<lparr>DnsZoneId = '''',
                Deletions = deleted @ updateOld,
                Additions = created @ updateNew\<rparr>))))"

text \<open>
  The loop of \<^verbatim>\<open>ApplyChanges\<close> over the separated requests. It returns what
  \<^verbatim>\<open>ApplyChanges\<close> returns, the state of the client afterwards, and the requests passed to
  \<^verbatim>\<open>UpdateRecordSets\<close>, in the order of the calls.
\<close>

fun submit ::
  "YandexProvider \<Rightarrow> ('s, 'e) dnsZoneClient \<Rightarrow> 's \<Rightarrow> UpdateRecordSetsRequest list \<Rightarrow>
   ('e, unit) result \<times> 's \<times> UpdateRecordSetsRequest list"
where
  "submit p c s [] = (Ok (), s, [])"
| "submit p c s (request # rest) =
     (if dryRun p then submit p c s rest
      else (case UpdateRecordSets c s request of
              (Ok _, s') \<Rightarrow>
                (case submit p c s' rest of (r, s'', calls) \<Rightarrow> (r, s'', request # calls))
            | (Err e, s') \<Rightarrow> (Err e, s', [request])
            | (Panic, s') \<Rightarrow> (Panic, s', [request])))"

definition ApplyChanges ::
  "framework \<Rightarrow> order \<Rightarrow> YandexProvider \<Rightarrow> ('s, 'e) dnsZoneClient \<Rightarrow> 's \<Rightarrow> Changes \<Rightarrow>
   ('e, unit) result \<times> 's \<times> UpdateRecordSetsRequest list"
where
  "ApplyChanges fw ord p c s changes =
     (case updateRequest fw p changes of
        None \<Rightarrow> (Panic, s, [])
      | Some request \<Rightarrow>
          (case zones p c s of
             Err e \<Rightarrow> (Err e, s, [])
           | Panic \<Rightarrow> (Panic, s, [])
           | Ok zs \<Rightarrow>
               (case separateChange fw ord zs request of
                  None \<Rightarrow> (Panic, s, [])
                | Some separatedChanges \<Rightarrow>
                    submit p c s (rangeValues ord separatedChanges))))"

text \<open>The loop of \<^verbatim>\<open>Records\<close> over the filtered zones, with the endpoints collected so far.\<close>

fun listZones ::
  "framework \<Rightarrow> ('s, 'e) dnsZoneClient \<Rightarrow> 's \<Rightarrow> DnsZone list \<Rightarrow> Endpoint list \<Rightarrow>
   ('e, Endpoint list) result"
where
  "listZones fw c s [] endpoints = Ok endpoints"
| "listZones fw c s (zone # rest) endpoints =
     (case ListRecordSets c s (Id zone) of
        Err e \<Rightarrow> Err e
      | Panic \<Rightarrow> Panic
      | Ok records \<Rightarrow>
          listZones fw c s rest
            (endpoints @
             map (\<lambda>record. NewEndpointWithTTL (RecordSet.Name record) (Type record)
                             (Ttl record) (Data record))
                 (filter (\<lambda>record. SupportedRecordType fw (Type record)) records)))"

definition Records ::
  "framework \<Rightarrow> order \<Rightarrow> YandexProvider \<Rightarrow> ('s, 'e) dnsZoneClient \<Rightarrow> 's \<Rightarrow>
   ('e, Endpoint list) result"
where
  "Records fw ord p c s =
     (case zones p c s of
        Err e \<Rightarrow> Err e
      | Panic \<Rightarrow> Panic
      | Ok zs \<Rightarrow> listZones fw c s (rangeValues ord zs) [])"

section \<open>The mock client of the test suite\<close>

text \<open>
  The struct \<^verbatim>\<open>mockDNSZoneClient\<close>. Its field \<^verbatim>\<open>zones\<close> is \<open>zones_m\<close> here, the name \<open>zones\<close>
  being the method of the provider, and its three interface methods carry the suffix
  \<open>_mock\<close>. Both of its maps are Go maps; the record sets of a zone are stored under
  \<^verbatim>\<open>getRecordSetKey\<close>.
\<close>

record mockDNSZoneClient =
  zones_m :: "(string \<times> DnsZone) list"
  recordSets :: "(string \<times> (string \<times> RecordSet) list) list"

text \<open>The three messages that the mock client formats with \<^verbatim>\<open>fmt.Errorf\<close>.\<close>

datatype mockError =
    ZoneDoesNotExist string
  | RecordSetNotFound RecordSet string
  | RecordSetAlreadyExists string string string

definition getRecordSetKey :: "RecordSet \<Rightarrow> string" where
  "getRecordSetKey recordSet = RecordSet.Name recordSet @ ''|key|'' @ Type recordSet"

text \<open>
  \<^verbatim>\<open>equalRecordSetsData\<close> builds two maps to \<^verbatim>\<open>bool\<close>; reading a key that a Go map does not
  hold gives \<^verbatim>\<open>false\<close>. The final loop returns false at the first entry that differs and
  true otherwise, the same in every order of the visit.
\<close>

definition equalRecordSetsData :: "string list \<Rightarrow> string list \<Rightarrow> bool" where
  "equalRecordSetsData first second =
     (if length first \<noteq> length second then False
      else let firstMap = fold (\<lambda>str m. AList.update str True m) first [];
               secondMap = fold (\<lambda>str m. AList.update str True m) second []
           in list_all (\<lambda>(k, v). v = (case map_of secondMap k of None \<Rightarrow> False | Some b \<Rightarrow> b))
                firstMap)"

definition equalRecordSets :: "RecordSet \<Rightarrow> RecordSet \<Rightarrow> bool" where
  "equalRecordSets first second \<longleftrightarrow>
     equalRecordSetsData (Data first) (Data second) \<and>
     RecordSet.Name first = RecordSet.Name second \<and>
     Type first = Type second \<and>
     Ttl first = Ttl second"

definition recordSetExists :: "mockDNSZoneClient \<Rightarrow> string \<Rightarrow> RecordSet \<Rightarrow> bool" where
  "recordSetExists c zoneID recordSet =
     (case map_of (recordSets c) zoneID of
        None \<Rightarrow> False
      | Some zoneRecords \<Rightarrow> map_of zoneRecords (getRecordSetKey recordSet) \<noteq> None)"

text \<open>
  The expression \<^verbatim>\<open>c.recordSets[zoneID][getRecordSetKey(recordSet)]\<close>: nil (\<^const>\<open>None\<close>) when
  the zone or the key is missing.
\<close>

definition storedRecordSet :: "mockDNSZoneClient \<Rightarrow> string \<Rightarrow> RecordSet \<Rightarrow> RecordSet option" where
  "storedRecordSet c zoneID recordSet =
     (case map_of (recordSets c) zoneID of
        None \<Rightarrow> None
      | Some zoneRecords \<Rightarrow> map_of zoneRecords (getRecordSetKey recordSet))"

text \<open>
  \<^verbatim>\<open>deleteRecords\<close>: the first loop returns the error of the first deletion that is missing
  or differs from the stored record set (\<^verbatim>\<open>||\<close> does not evaluate the comparison for a
  missing one); the second loop deletes the keys. \<^verbatim>\<open>delete\<close> on the nil map of a missing
  zone does nothing.
\<close>

definition deleteRecords ::
  "mockDNSZoneClient \<Rightarrow> string \<Rightarrow> RecordSet list \<Rightarrow> (mockError, unit) result \<times> mockDNSZoneClient"
where
  "deleteRecords c zoneID deletions =
     (case find (\<lambda>recordSet.
                   \<not> recordSetExists c zoneID recordSet \<or>
                   (case storedRecordSet c zoneID recordSet of
                      None \<Rightarrow> True
                    | Some stored \<Rightarrow> \<not> equalRecordSets recordSet stored))
                deletions of
        Some recordSet \<Rightarrow> (Err (RecordSetNotFound recordSet zoneID), c)
      | None \<Rightarrow>
          (Ok (),
           fold (\<lambda>recordSet c'.
                   case map_of (recordSets c') zoneID of
                     None \<Rightarrow> c'
                   | Some zoneRecords \<Rightarrow>
                       c'\<lparr>recordSets :=
                            AList.update zoneID
                              (AList.delete (getRecordSetKey recordSet) zoneRecords)
                              (recordSets c')\<rparr>)
                deletions c))"

text \<open>
  The second loop of \<^verbatim>\<open>addRecords\<close>: a record set whose key is free is stored; the write
  goes to \<^verbatim>\<open>c.recordSets[zoneID]\<close>, which is a nil map for a missing zone, and then panics.
\<close>

fun storeAdditions ::
  "mockDNSZoneClient \<Rightarrow> string \<Rightarrow> RecordSet list \<Rightarrow> (mockError, unit) result \<times> mockDNSZoneClient"
where
  "storeAdditions c zoneID [] = (Ok (), c)"
| "storeAdditions c zoneID (recordSet # rest) =
     (if \<not> recordSetExists c zoneID recordSet
      then (case map_of (recordSets c) zoneID of
              None \<Rightarrow> (Panic, c)
            | Some zoneRecords \<Rightarrow>
                storeAdditions
                  (c\<lparr>recordSets :=
                       AList.update zoneID
                         (AList.update (getRecordSetKey recordSet) recordSet zoneRecords)
                         (recordSets c)\<rparr>)
                  zoneID rest)
      else storeAdditions c zoneID rest)"

definition addRecords ::
  "mockDNSZoneClient \<Rightarrow> string \<Rightarrow> RecordSet list \<Rightarrow> (mockError, unit) result \<times> mockDNSZoneClient"
where
  "addRecords c zoneID additions =
     (case find (\<lambda>recordSet.
                   recordSetExists c zoneID recordSet \<and>
                   (case storedRecordSet c zoneID recordSet of
                      None \<Rightarrow> False
                    | Some stored \<Rightarrow> \<not> equalRecordSets recordSet stored))
                additions of
        Some recordSet \<Rightarrow>
          (Err (RecordSetAlreadyExists (RecordSet.Name recordSet) (Type recordSet) zoneID), c)
      | None \<Rightarrow> storeAdditions c zoneID additions)"

definition UpdateRecordSets_mock ::
  "mockDNSZoneClient \<Rightarrow> UpdateRecordSetsRequest \<Rightarrow> (mockError, unit) result \<times> mockDNSZoneClient"
where
  "UpdateRecordSets_mock c request =
     (case deleteRecords c (DnsZoneId request) (Deletions request) of
        (Err e, c') \<Rightarrow> (Err e, c')
      | (Panic, c') \<Rightarrow> (Panic, c')
      | (Ok _, c') \<Rightarrow> addRecords c' (DnsZoneId request) (Additions request))"

definition List_mock :: "order \<Rightarrow> mockDNSZoneClient \<Rightarrow> (mockError, DnsZone list) result" where
  "List_mock ord c = Ok (rangeValues ord (zones_m c))"

definition ListRecordSets_mock ::
  "order \<Rightarrow> mockDNSZoneClient \<Rightarrow> string \<Rightarrow> (mockError, RecordSet list) result"
where
  "ListRecordSets_mock ord c zoneID =
     (case map_of (zones_m c) zoneID of
        None \<Rightarrow> Err (ZoneDoesNotExist zoneID)
      | Some _ \<Rightarrow>
          Ok (case map_of (recordSets c) zoneID of
                None \<Rightarrow> []
              | Some zoneRecords \<Rightarrow> rangeValues ord zoneRecords))"

definition mockClient :: "order \<Rightarrow> (mockDNSZoneClient, mockError) dnsZoneClient" where
  "mockClient ord =
     \<lparr>List = (\<lambda>c folderId. List_mock ord c),
      UpdateRecordSets = UpdateRecordSets_mock,
      ListRecordSets = ListRecordSets_mock ord\<rparr>"

section \<open>Example data\<close>

text \<open>
  Concrete inputs on which the theorems below are evaluated: an instance of the framework
  parameters, providers, clients, zones, record sets and endpoints.
\<close>

definition exampleA :: RecordSet where
  "exampleA = \<lparr>Name = ''www.example.com.'', Type = ''A'', Ttl = 300, Data = [''192.0.2.1'', ''192.0.2.2'']\<rparr>"

definition exampleTXT :: RecordSet where
  "exampleTXT = \<lparr>Name = ''www.example.com.'', Type = ''TXT'', Ttl = 300, Data = [''v=spf1 -all'']\<rparr>"

definition exampleZone :: DnsZone where
  "exampleZone = \<lparr>Id = ''dns1'', Name = ''example-zone'', Zone = ''example.com.'', PublicVisibility = Some ()\<rparr>"

definition nameFilterProvider :: YandexProvider where
  "nameFilterProvider = \<lparr>folder = ''b1g'', dryRun = False, domainFilter = (\<lambda>domain. True),
     zoneTypeFilter = (\<lambda>zoneType. True), zoneIDFilter = (\<lambda>zoneID. HasSuffix zoneID ''example-zone'')\<rparr>"

definition exampleClient :: mockDNSZoneClient where
  "exampleClient = \<lparr>zones_m = [(''dns1'', exampleZone)], recordSets = [(''dns1'', [])]\<rparr>"

text \<open>
  The instance of the framework parameters. \<^verbatim>\<open>provider.EnsureTrailingDot\<close> returns an IP
  address as it is and any other host name with exactly one dot at its end;
  \<^verbatim>\<open>isIPv4\<close> recognises the addresses in dotted decimal notation (four decimal fields of
  value at most 255, without leading zero), the only ones used below.
\<close>

fun splitFields :: "string \<Rightarrow> string list" where
  "splitFields [] = [[]]"
| "splitFields (c # cs) =
     (if c = CHR ''.'' then [] # splitFields cs
      else (case splitFields cs of [] \<Rightarrow> [[c]] | part # parts \<Rightarrow> (c # part) # parts))"

definition digitValue :: "char \<Rightarrow> nat" where
  "digitValue c = length (takeWhile (\<lambda>digit. digit \<noteq> c) ''0123456789'')"

definition isDecimalByte :: "string \<Rightarrow> bool" where
  "isDecimalByte part \<longleftrightarrow>
     0 < length part \<and> length part \<le> 3 \<and>
     list_all (\<lambda>c. digitValue c < 10) part \<and>
     (if length part = 1 then True else digitValue (hd part) \<noteq> 0) \<and>
     foldl (\<lambda>n c. 10 * n + digitValue c) 0 part \<le> 255"

definition isIPv4 :: "string \<Rightarrow> bool" where
  "isIPv4 s \<longleftrightarrow> length (splitFields s) = 4 \<and> list_all isDecimalByte (splitFields s)"

definition exampleFramework :: framework where
  "exampleFramework =
     \<lparr>EnsureTrailingDot = (\<lambda>hostname. if isIPv4 hostname then hostname else TrimSuffix hostname ''.'' @ ''.''),
      SupportedRecordType = (\<lambda>recordType. recordType \<in> set [''A'', ''CNAME'', ''SRV'', ''TXT'', ''NS'']),
      IsConfigured = (\<lambda>ttl. word_sless 0 ttl)\<rparr>"

definition dryRunProvider :: YandexProvider where
  "dryRunProvider = \<lparr>folder = ''b1g'', dryRun = True, domainFilter = (\<lambda>domain. True),
     zoneTypeFilter = (\<lambda>zoneType. True), zoneIDFilter = (\<lambda>zoneID. True)\<rparr>"

definition failingClient :: "(unit, string) dnsZoneClient" where
  "failingClient = \<lparr>List = (\<lambda>s folderId. Err ''unavailable''),
     UpdateRecordSets = (\<lambda>s request. (Err ''unavailable'', s)),
     ListRecordSets = (\<lambda>s zoneID. Err ''unavailable'')\<rparr>"

definition exampleCNAME :: Endpoint where
  "exampleCNAME = \<lparr>DNSName = ''www.example.com'', Targets = [''host.example.com''], RecordType = ''CNAME'', RecordTTL = 0\<rparr>"

definition emptyCNAME :: Endpoint where
  "emptyCNAME = \<lparr>DNSName = ''www.example.com'', Targets = [], RecordType = ''CNAME'', RecordTTL = 0\<rparr>"

definition exampleChanges :: Changes where
  "exampleChanges = \<lparr>Create = [exampleCNAME], UpdateOld = [], UpdateNew = [], Delete = []\<rparr>"


definition inOrder :: order where
  "inOrder keys = keys"

definition liveProvider :: YandexProvider where
  "liveProvider = \<lparr>folder = ''b1g'', dryRun = False, domainFilter = (\<lambda>domain. True),
     zoneTypeFilter = (\<lambda>zoneType. True), zoneIDFilter = (\<lambda>zoneID. True)\<rparr>"

definition storedClient :: mockDNSZoneClient where
  "storedClient = \<lparr>zones_m = [(''dns1'', exampleZone)],
     recordSets = [(''dns1'', [(''www.example.com.|key|A'', exampleA)])]\<rparr>"

definition conflictingA :: Endpoint where
  "conflictingA = \<lparr>DNSName = ''www.example.com'', Targets = [''192.0.2.9''], RecordType = ''A'', RecordTTL = 0\<rparr>"

definition conflictingChanges :: Changes where
  "conflictingChanges = \<lparr>Create = [conflictingA], UpdateOld = [], UpdateNew = [], Delete = []\<rparr>"

definition conflictingRecordSet :: RecordSet where
  "conflictingRecordSet = \<lparr>Name = ''www.example.com.'', Type = ''A'', Ttl = 300, Data = [''192.0.2.9'']\<rparr>"

definition unnamedZone :: DnsZone where
  "unnamedZone = \<lparr>Id = '''', Name = ''example-zone'', Zone = ''example.com.'', PublicVisibility = Some ()\<rparr>"

definition invalidTypeRecordSet :: RecordSet where
  "invalidTypeRecordSet = \<lparr>Name = ''www.example.com.'', Type = ''UNSUPPORTED'', Ttl = 300, Data = [''unsupported'']\<rparr>"

definition reorderedA :: RecordSet where
  "reorderedA = \<lparr>Name = ''www.example.com.'', Type = ''A'', Ttl = 300, Data = [''192.0.2.2'', ''192.0.2.1'']\<rparr>"

definition replacedClient :: mockDNSZoneClient where
  "replacedClient = \<lparr>zones_m = [(''dns1'', exampleZone)],
     recordSets = [(''dns1'', [(''www.example.com.|key|A'', conflictingRecordSet)])]\<rparr>"

definition replacingChanges :: Changes where
  "replacingChanges = \<lparr>Create = [],
     UpdateOld = [\<lparr>DNSName = ''www.example.com'', Targets = [''192.0.2.1'', ''192.0.2.2''],
                   RecordType = ''A'', RecordTTL = 0\<rparr>],
     UpdateNew = [conflictingA], Delete = []\<rparr>"

text \<open>Three zones, one of them below another, and a fourth above both.\<close>

definition subZone :: DnsZone where
  "subZone = \<lparr>Id = ''dns2'', Name = ''sub-zone'', Zone = ''sub.example.com.'', PublicVisibility = None\<rparr>"

definition orgZone :: DnsZone where
  "orgZone = \<lparr>Id = ''dns3'', Name = ''org-zone'', Zone = ''example.org.'', PublicVisibility = Some ()\<rparr>"

definition comZone :: DnsZone where
  "comZone = \<lparr>Id = ''dns4'', Name = ''com-zone'', Zone = ''com.'', PublicVisibility = Some ()\<rparr>"

definition threeZones :: "(string \<times> DnsZone) list" where
  "threeZones = [(''dns1'', exampleZone), (''dns2'', subZone), (''dns3'', orgZone)]"

definition fourZones :: "(string \<times> DnsZone) list" where
  "fourZones = [(''dns1'', exampleZone), (''dns2'', subZone), (''dns3'', orgZone), (''dns4'', comZone)]"

definition storedSub :: RecordSet where
  "storedSub = \<lparr>Name = ''a.sub.example.com.'', Type = ''A'', Ttl = 300, Data = [''192.0.2.1'']\<rparr>"

definition conflictSub :: RecordSet where
  "conflictSub = \<lparr>Name = ''a.sub.example.com.'', Type = ''A'', Ttl = 300, Data = [''192.0.2.9'']\<rparr>"

definition oldSub :: RecordSet where
  "oldSub = \<lparr>Name = ''old.sub.example.com.'', Type = ''A'', Ttl = 300, Data = [''192.0.2.3'']\<rparr>"

definition orgA :: RecordSet where
  "orgA = \<lparr>Name = ''www.example.org.'', Type = ''A'', Ttl = 300, Data = [''192.0.2.4'']\<rparr>"

definition netA :: RecordSet where
  "netA = \<lparr>Name = ''www.example.net.'', Type = ''A'', Ttl = 300, Data = [''192.0.2.5'']\<rparr>"

definition repeatedA :: RecordSet where
  "repeatedA = \<lparr>Name = ''www.example.com.'', Type = ''A'', Ttl = 300, Data = [''192.0.2.1'', ''192.0.2.1'']\<rparr>"

definition fourZoneChange :: UpdateRecordSetsRequest where
  "fourZoneChange = \<lparr>DnsZoneId = '''', Deletions = [orgA], Additions = [conflictSub, netA]\<rparr>"

definition threeZoneChanges :: Changes where
  "threeZoneChanges =
     \<lparr>Create = [\<lparr>DNSName = ''www.example.com'', Targets = [''192.0.2.1'', ''192.0.2.2''],
                  RecordType = ''A'', RecordTTL = 0\<rparr>,
                \<lparr>DNSName = ''a.sub.example.com'', Targets = [''192.0.2.9''],
                  RecordType = ''A'', RecordTTL = 0\<rparr>],
      UpdateOld = [], UpdateNew = [],
      Delete = [\<lparr>DNSName = ''old.sub.example.com'', Targets = [''192.0.2.3''],
                  RecordType = ''A'', RecordTTL = 0\<rparr>,
                \<lparr>DNSName = ''www.example.org'', Targets = [''192.0.2.4''],
                  RecordType = ''A'', RecordTTL = 0\<rparr>]\<rparr>"

definition threeZoneCombined :: UpdateRecordSetsRequest where
  "threeZoneCombined = \<lparr>DnsZoneId = '''', Deletions = [oldSub, orgA], Additions = [exampleA, conflictSub]\<rparr>"

definition comRequest :: UpdateRecordSetsRequest where
  "comRequest = \<lparr>DnsZoneId = ''dns1'', Deletions = [], Additions = [exampleA]\<rparr>"

definition subRequest :: UpdateRecordSetsRequest where
  "subRequest = \<lparr>DnsZoneId = ''dns2'', Deletions = [oldSub], Additions = [conflictSub]\<rparr>"

definition orgRequest :: UpdateRecordSetsRequest where
  "orgRequest = \<lparr>DnsZoneId = ''dns3'', Deletions = [orgA], Additions = []\<rparr>"

text \<open>
  A client that lists the three zones, fails on every call for the zone \<^verbatim>\<open>dns2\<close> and
  otherwise succeeds; its state is the list of the zones updated so far.
\<close>

definition failingSubClient :: "(string list, string) dnsZoneClient" where
  "failingSubClient = \<lparr>List = (\<lambda>s folderId. Ok [exampleZone, subZone, orgZone]),
     UpdateRecordSets = (\<lambda>s request.
        if DnsZoneId request = ''dns2'' then (Err ''unavailable'', s)
        else (Ok (), s @ [DnsZoneId request])),
     ListRecordSets = (\<lambda>s zoneID. if zoneID = ''dns2'' then Err ''unavailable'' else Ok [])\<rparr>"

text \<open>
  The store of the mock client over the three zones, the store after \<^const>\<open>comRequest\<close> and
  the store after the deletion of \<^const>\<open>subRequest\<close>.
\<close>

definition threeZoneClient :: mockDNSZoneClient where
  "threeZoneClient = \<lparr>zones_m = threeZones,
     recordSets = [(''dns1'', []),
       (''dns2'', [(''old.sub.example.com.|key|A'', oldSub), (''a.sub.example.com.|key|A'', storedSub)]),
       (''dns3'', [(''www.example.org.|key|A'', orgA)])]\<rparr>"

definition threeZoneAfterCom :: mockDNSZoneClient where
  "threeZoneAfterCom = \<lparr>zones_m = threeZones,
     recordSets = [(''dns1'', [(''www.example.com.|key|A'', exampleA)]),
       (''dns2'', [(''old.sub.example.com.|key|A'', oldSub), (''a.sub.example.com.|key|A'', storedSub)]),
       (''dns3'', [(''www.example.org.|key|A'', orgA)])]\<rparr>"

definition threeZoneAfterDelete :: mockDNSZoneClient where
  "threeZoneAfterDelete = \<lparr>zones_m = threeZones,
     recordSets = [(''dns1'', [(''www.example.com.|key|A'', exampleA)]),
       (''dns2'', [(''a.sub.example.com.|key|A'', storedSub)]),
       (''dns3'', [(''www.example.org.|key|A'', orgA)])]\<rparr>"

text \<open>A store that holds a record set of a supported type and one of another type.\<close>

definition mixedClient :: mockDNSZoneClient where
  "mixedClient = \<lparr>zones_m = [(''dns1'', exampleZone)],
     recordSets = [(''dns1'', [(''www.example.com.|key|A'', exampleA),
                               (''www.example.com.|key|UNSUPPORTED'', invalidTypeRecordSet)])]\<rparr>"

text \<open>The definitions that evaluate the instance of the framework parameters.\<close>

lemmas exampleFramework_defs =
  exampleFramework_def isIPv4_def isDecimalByte_def digitValue_def TrimSuffix_def HasSuffix_def

section \<open>Record-set keys and record-set comparison\<close>

lemma takeWhile_until_first:
  "x \<notin> set a \<Longrightarrow> takeWhile (\<lambda>y. y \<noteq> x) (a @ x # b) = a"
  by (induction a) auto

lemma key_cancel_left:
  assumes "x \<notin> set a" "x \<notin> set c" "a @ x # b = c @ x # d"
  shows "a = c \<and> b = d"
proof -
  have "takeWhile (\<lambda>y. y \<noteq> x) (a @ x # b) = a" "takeWhile (\<lambda>y. y \<noteq> x) (c @ x # d) = c"
    by (simp_all add: takeWhile_until_first assms(1,2))
  with assms(3) have "a = c" by simp
  with assms(3) show ?thesis by simp
qed

lemma key_cancel_right:
  assumes "x \<notin> set b" "x \<notin> set d" "a @ x # b = c @ x # d"
  shows "a = c \<and> b = d"
proof -
  from assms(3) have "rev (a @ x # b) = rev (c @ x # d)" by simp
  then have "rev b @ x # rev a = rev d @ x # rev c" by simp
  moreover have "x \<notin> set (rev b)" "x \<notin> set (rev d)" using assms(1,2) by simp_all
  ultimately have "rev b = rev d \<and> rev a = rev c"
    by (rule key_cancel_left [rotated 2])
  then show ?thesis by simp
qed

lemma getRecordSetKey_inj_types:
  assumes "CHR ''|'' \<notin> set (Type r1)" "CHR ''|'' \<notin> set (Type r2)"
    and "getRecordSetKey r1 = getRecordSetKey r2"
  shows "RecordSet.Name r1 = RecordSet.Name r2 \<and> Type r1 = Type r2"
proof -
  from assms(3) have
    "(RecordSet.Name r1 @ ''|key'') @ CHR ''|'' # Type r1 = (RecordSet.Name r2 @ ''|key'') @ CHR ''|'' # Type r2"
    by (simp add: getRecordSetKey_def)
  from key_cancel_right [OF assms(1,2) this] show ?thesis by simp
qed

lemma getRecordSetKey_inj_names:
  assumes "CHR ''|'' \<notin> set (RecordSet.Name r1)" "CHR ''|'' \<notin> set (RecordSet.Name r2)"
    and "getRecordSetKey r1 = getRecordSetKey r2"
  shows "RecordSet.Name r1 = RecordSet.Name r2 \<and> Type r1 = Type r2"
proof -
  from assms(3) have
    "RecordSet.Name r1 @ CHR ''|'' # (''key|'' @ Type r1) = RecordSet.Name r2 @ CHR ''|'' # (''key|'' @ Type r2)"
    by (simp add: getRecordSetKey_def)
  from key_cancel_left [OF assms(1,2) this] show ?thesis by simp
qed

lemma map_of_marks:
  "map_of (fold (\<lambda>str m. AList.update str True m) xs m) k =
     (if k \<in> set xs then Some True else map_of m k)"
  by (induction xs arbitrary: m) (auto simp: update_conv')

lemma distinct_marks:
  "distinct (map fst m) \<Longrightarrow> distinct (map fst (fold (\<lambda>str m. AList.update str True m) xs m))"
  by (induction xs arbitrary: m) (auto simp: distinct_update)

lemma set_marks:
  "set (fold (\<lambda>str m. AList.update str True m) xs []) = (\<lambda>k. (k, True)) ` set xs"
proof -
  let ?m = "fold (\<lambda>str m. AList.update str True m) xs []"
  have d: "distinct (map fst ?m)" by (rule distinct_marks) simp
  have "(k, v) \<in> set ?m \<longleftrightarrow> k \<in> set xs \<and> v = True" for k v
    using map_of_eq_Some_iff [OF d, of k v] by (auto simp: map_of_marks split: if_splits)
  then show ?thesis by auto
qed

lemma equalRecordSetsData_iff:
  "equalRecordSetsData first second \<longleftrightarrow> length first = length second \<and> set first \<subseteq> set second"
  by (auto simp: equalRecordSetsData_def Let_def list_all_iff set_marks map_of_marks)

lemma distinct_subset_length_eq:
  assumes "distinct xs" "distinct ys" "length xs = length ys" "set xs \<subseteq> set ys"
  shows "set xs = set ys"
proof -
  have "card (set xs) = card (set ys)"
    using assms by (simp add: distinct_card)
  with assms(4) show ?thesis
    by (simp add: card_subset_eq)
qed


text \<open>
  C7 (as amended). Record sets with the same name and type have the same key. Equal keys
  give equal names and equal types when the character \<open>|\<close> occurs in neither type, or in
  neither name (the key is name, \<open>|key|\<close>, type, so without the condition two different
  pairs can share a key). In a store keyed by \<^const>\<open>getRecordSetKey\<close> two entries with the same
  name and type are the same entry: it holds at most one record set per (name, type).
\<close>

theorem getRecordSetKey_identifies:
  "(RecordSet.Name r1 = RecordSet.Name r2 \<and> Type r1 = Type r2 \<longrightarrow>
      getRecordSetKey r1 = getRecordSetKey r2) \<and>
   ((CHR ''|'' \<notin> set (Type r1) \<and> CHR ''|'' \<notin> set (Type r2)) \<or>
    (CHR ''|'' \<notin> set (RecordSet.Name r1) \<and> CHR ''|'' \<notin> set (RecordSet.Name r2)) \<longrightarrow>
      (getRecordSetKey r1 = getRecordSetKey r2 \<longleftrightarrow>
         RecordSet.Name r1 = RecordSet.Name r2 \<and> Type r1 = Type r2)) \<and>
   (\<forall>store. distinct (map fst store) \<and> (\<forall>(k, r) \<in> set store. k = getRecordSetKey r) \<longrightarrow>
      (\<forall>(k, r) \<in> set store. \<forall>(k', r') \<in> set store.
         RecordSet.Name r = RecordSet.Name r' \<and> Type r = Type r' \<longrightarrow> k = k' \<and> r = r'))"
proof (intro conjI impI allI)
  assume "RecordSet.Name r1 = RecordSet.Name r2 \<and> Type r1 = Type r2"
  then show "getRecordSetKey r1 = getRecordSetKey r2"
    by (simp add: getRecordSetKey_def)
next
  assume "(CHR ''|'' \<notin> set (Type r1) \<and> CHR ''|'' \<notin> set (Type r2)) \<or>
    (CHR ''|'' \<notin> set (RecordSet.Name r1) \<and> CHR ''|'' \<notin> set (RecordSet.Name r2))"
  then have "getRecordSetKey r1 = getRecordSetKey r2 \<Longrightarrow>
      RecordSet.Name r1 = RecordSet.Name r2 \<and> Type r1 = Type r2"
    using getRecordSetKey_inj_types [of r1 r2] getRecordSetKey_inj_names [of r1 r2] by blast
  then show "getRecordSetKey r1 = getRecordSetKey r2 \<longleftrightarrow>
      RecordSet.Name r1 = RecordSet.Name r2 \<and> Type r1 = Type r2"
    by (auto simp: getRecordSetKey_def)
next
  fix store :: "(string \<times> RecordSet) list"
  assume a: "distinct (map fst store) \<and> (\<forall>(k, r) \<in> set store. k = getRecordSetKey r)"
  show "\<forall>(k, r) \<in> set store. \<forall>(k', r') \<in> set store.
         RecordSet.Name r = RecordSet.Name r' \<and> Type r = Type r' \<longrightarrow> k = k' \<and> r = r'"
  proof (clarify, rule conjI)
    fix k r k' r'
    assume m: "(k, r) \<in> set store" "(k', r') \<in> set store"
      and e: "RecordSet.Name r = RecordSet.Name r'" "Type r = Type r'"
    from a m have "k = getRecordSetKey r" "k' = getRecordSetKey r'" by auto
    with e show kk: "k = k'" by (simp add: getRecordSetKey_def)
    from a have "distinct (map fst store)" by simp
    from this m kk show "r = r'" by (auto dest: eq_key_imp_eq_value)
  qed
qed

theorem getRecordSetKey_identifies_witness:
  "CHR ''|'' \<notin> set (Type exampleA) \<and> CHR ''|'' \<notin> set (Type exampleTXT) \<and>
   RecordSet.Name exampleA = RecordSet.Name exampleTXT \<and> Type exampleA \<noteq> Type exampleTXT \<and>
   getRecordSetKey exampleA \<noteq> getRecordSetKey exampleTXT \<and>
   RecordSet.Name exampleA = RecordSet.Name reorderedA \<and> Type exampleA = Type reorderedA \<and>
   getRecordSetKey exampleA = getRecordSetKey reorderedA"
proof -
  have b: "(CHR ''|'' \<notin> set (Type exampleA) \<and> CHR ''|'' \<notin> set (Type exampleTXT)) \<or>
      (CHR ''|'' \<notin> set (RecordSet.Name exampleA) \<and> CHR ''|'' \<notin> set (RecordSet.Name exampleTXT))"
    by (simp add: exampleA_def exampleTXT_def)
  have t: "Type exampleA \<noteq> Type exampleTXT"
    by (simp add: exampleA_def exampleTXT_def)
  have n: "RecordSet.Name exampleA = RecordSet.Name reorderedA \<and> Type exampleA = Type reorderedA"
    by (simp add: exampleA_def reorderedA_def)
  from getRecordSetKey_identifies [of exampleA exampleTXT, THEN conjunct2, THEN conjunct1,
      rule_format, OF b] t
  have d: "getRecordSetKey exampleA \<noteq> getRecordSetKey exampleTXT"
    by simp
  from getRecordSetKey_identifies [of exampleA reorderedA, THEN conjunct1, rule_format, OF n]
  have e: "getRecordSetKey exampleA = getRecordSetKey reorderedA" .
  have c: "CHR ''|'' \<notin> set (Type exampleA)" "CHR ''|'' \<notin> set (Type exampleTXT)"
    "RecordSet.Name exampleA = RecordSet.Name exampleTXT"
    by (simp_all add: exampleA_def exampleTXT_def)
  from c t d n e show ?thesis by blast
qed

text \<open>
  The claim C7 as stated fails: the name \<open>a|key|b\<close> with type \<open>c\<close> and the name \<open>a\<close> with type
  \<open>b|key|c\<close> have the same key.
\<close>

theorem getRecordSetKey_collision:
  "getRecordSetKey \<lparr>Name = ''a|key|b'', Type = ''c'', Ttl = 300, Data = []\<rparr> =
   getRecordSetKey \<lparr>Name = ''a'', Type = ''b|key|c'', Ttl = 300, Data = []\<rparr> \<and>
   RecordSet.Name \<lparr>Name = ''a|key|b'', Type = ''c'', Ttl = 300, Data = []\<rparr> \<noteq>
   RecordSet.Name \<lparr>Name = ''a'', Type = ''b|key|c'', Ttl = 300, Data = []\<rparr>"
  by (simp add: getRecordSetKey_def)

text \<open>
  C8 (as amended). For record sets that agree on name, type and TTL: when neither data list
  repeats a string, \<^const>\<open>equalRecordSets\<close> holds exactly when the two lists hold the same set of
  strings; data lists of different lengths are never equal; and the result does not change
  when either data list is permuted.
\<close>

theorem equalRecordSets_order_independent:
  assumes "RecordSet.Name r1 = RecordSet.Name r2" "Type r1 = Type r2" "Ttl r1 = Ttl r2"
  shows "(distinct (Data r1) \<and> distinct (Data r2) \<longrightarrow>
            (equalRecordSets r1 r2 \<longleftrightarrow> set (Data r1) = set (Data r2))) \<and>
         (length (Data r1) \<noteq> length (Data r2) \<longrightarrow> \<not> equalRecordSets r1 r2) \<and>
         (\<forall>d1 d2. mset d1 = mset (Data r1) \<and> mset d2 = mset (Data r2) \<longrightarrow>
            equalRecordSets (r1\<lparr>Data := d1\<rparr>) (r2\<lparr>Data := d2\<rparr>) = equalRecordSets r1 r2)"
proof (intro conjI impI allI)
  assume d: "distinct (Data r1) \<and> distinct (Data r2)"
  show "equalRecordSets r1 r2 \<longleftrightarrow> set (Data r1) = set (Data r2)"
  proof
    assume "equalRecordSets r1 r2"
    then have "length (Data r1) = length (Data r2)" "set (Data r1) \<subseteq> set (Data r2)"
      by (simp_all add: equalRecordSets_def equalRecordSetsData_iff)
    with d show "set (Data r1) = set (Data r2)"
      by (simp add: distinct_subset_length_eq)
  next
    assume s: "set (Data r1) = set (Data r2)"
    with d have "length (Data r1) = length (Data r2)"
      by (metis distinct_card)
    with s assms show "equalRecordSets r1 r2"
      by (simp add: equalRecordSets_def equalRecordSetsData_iff)
  qed
next
  assume "length (Data r1) \<noteq> length (Data r2)"
  then show "\<not> equalRecordSets r1 r2"
    by (simp add: equalRecordSets_def equalRecordSetsData_iff)
next
  fix d1 d2
  assume m: "mset d1 = mset (Data r1) \<and> mset d2 = mset (Data r2)"
  then have "length d1 = length (Data r1)" "length d2 = length (Data r2)"
    "set d1 = set (Data r1)" "set d2 = set (Data r2)"
    by (auto dest: mset_eq_length mset_eq_setD)
  then show "equalRecordSets (r1\<lparr>Data := d1\<rparr>) (r2\<lparr>Data := d2\<rparr>) = equalRecordSets r1 r2"
    by (simp add: equalRecordSets_def equalRecordSetsData_iff)
qed


theorem equalRecordSets_order_independent_witness:
  "RecordSet.Name exampleA = RecordSet.Name reorderedA \<and> Type exampleA = Type reorderedA \<and>
   Ttl exampleA = Ttl reorderedA \<and>
   distinct (Data exampleA) \<and> distinct (Data reorderedA) \<and>
   set (Data exampleA) = set (Data reorderedA) \<and>
   equalRecordSets exampleA reorderedA \<and>
   length (Data exampleA) \<noteq> length (Data conflictingRecordSet) \<and>
   \<not> equalRecordSets exampleA conflictingRecordSet"
proof -
  have a: "RecordSet.Name exampleA = RecordSet.Name reorderedA" "Type exampleA = Type reorderedA"
    "Ttl exampleA = Ttl reorderedA"
    by (simp_all add: exampleA_def reorderedA_def)
  have b: "RecordSet.Name exampleA = RecordSet.Name conflictingRecordSet"
    "Type exampleA = Type conflictingRecordSet" "Ttl exampleA = Ttl conflictingRecordSet"
    by (simp_all add: exampleA_def conflictingRecordSet_def)
  have d: "distinct (Data exampleA) \<and> distinct (Data reorderedA)"
    by (simp add: exampleA_def reorderedA_def)
  have s: "set (Data exampleA) = set (Data reorderedA)"
    by (simp add: exampleA_def reorderedA_def insert_commute)
  have l: "length (Data exampleA) \<noteq> length (Data conflictingRecordSet)"
    by (simp add: exampleA_def conflictingRecordSet_def)
  from equalRecordSets_order_independent [OF a, THEN conjunct1, rule_format, OF d] s
  have e: "equalRecordSets exampleA reorderedA" by simp
  from equalRecordSets_order_independent [OF b, THEN conjunct2, THEN conjunct1, rule_format, OF l]
  have f: "\<not> equalRecordSets exampleA conflictingRecordSet" .
  from a d s e l f show ?thesis by simp
qed

text \<open>
  The claim C8 as stated fails: the data lists \<open>[a]\<close> and \<open>[a, a]\<close> hold the same set of
  strings, and the length check makes the record sets unequal.
\<close>

theorem equalRecordSets_same_set_unequal:
  "set (Data \<lparr>Name = ''n.'', Type = ''TXT'', Ttl = 300, Data = [''a'']\<rparr>) =
   set (Data \<lparr>Name = ''n.'', Type = ''TXT'', Ttl = 300, Data = [''a'', ''a'']\<rparr>) \<and>
   \<not> equalRecordSets \<lparr>Name = ''n.'', Type = ''TXT'', Ttl = 300, Data = [''a'']\<rparr>
       \<lparr>Name = ''n.'', Type = ''TXT'', Ttl = 300, Data = [''a'', ''a'']\<rparr>"
  by (simp add: equalRecordSets_def equalRecordSetsData_def)

section \<open>Zone filtering\<close>

lemma find_append_case:
  "find P (xs @ ys) = (case find P xs of None \<Rightarrow> find P ys | Some x \<Rightarrow> Some x)"
  by (induction xs) auto

lemma find_unique:
  "z \<in> set xs \<Longrightarrow> Q z \<Longrightarrow> \<forall>y \<in> set xs. Q y \<longrightarrow> y = z \<Longrightarrow> find Q xs = Some z"
proof (induction xs)
  case Nil
  then show ?case by simp
next
  case (Cons x xs)
  show ?case
  proof (cases "Q x")
    case True
    with Cons.prems(3) have "x = z" by simp
    with True show ?thesis by simp
  next
    case False
    with Cons.prems have a: "z \<in> set xs" and b: "\<forall>y \<in> set xs. Q y \<longrightarrow> y = z" by auto
    have "find Q xs = Some z" by (rule Cons.IH [OF a Cons.prems(2) b])
    with False show ?thesis by simp
  qed
qed

lemma map_of_keep_fold:
  "map_of (fold (\<lambda>zone zs. if keep zone then AList.update (Id zone) zone zs else zs) dnsZones acc) i =
     (case find (\<lambda>z. Id z = i \<and> keep z) (rev dnsZones) of
        Some z \<Rightarrow> Some z
      | None \<Rightarrow> map_of acc i)"
proof (induction dnsZones arbitrary: acc)
  case Nil
  then show ?case by simp
next
  case (Cons z dnsZones)
  show ?case
    by (simp add: Cons.IH find_append_case update_conv' split: option.splits)
qed

lemma distinct_keep_fold:
  "distinct (map fst acc) \<Longrightarrow>
   distinct (map fst (fold (\<lambda>zone zs. if keep zone then AList.update (Id zone) zone zs else zs) dnsZones acc))"
  by (induction dnsZones arbitrary: acc) (simp_all add: distinct_update)

lemma find_last_distinct:
  assumes "distinct (map f xs)" "z \<in> set xs"
  shows "find (\<lambda>y. f y = f z \<and> P y) (rev xs) = (if P z then Some z else None)"
proof -
  have u: "y = z" if "y \<in> set xs" "f y = f z" for y
    using assms that by (meson distinct_map inj_onD)
  show ?thesis
  proof (cases "P z")
    case True
    have "find (\<lambda>y. f y = f z \<and> P y) (rev xs) = Some z"
    proof (rule find_unique)
      show "z \<in> set (rev xs)" using assms(2) by simp
      show "f z = f z \<and> P z" using True by simp
      show "\<forall>y\<in>set (rev xs). f y = f z \<and> P y \<longrightarrow> y = z" using u by simp
    qed
    with True show ?thesis by simp
  next
    case False
    with u have "\<not> (\<exists>y \<in> set (rev xs). f y = f z \<and> P y)" by auto
    then have "find (\<lambda>y. f y = f z \<and> P y) (rev xs) = None"
      by (simp add: find_None_iff)
    with False show ?thesis by simp
  qed
qed

lemma set_update_subset: "set (AList.update k v al) \<subseteq> insert (k, v) (set al)"
  by (induction al) auto

lemma zones_keyed_by_Id:
  assumes "zones p c s = Ok zs"
  shows "distinct (map fst zs) \<and> (\<forall>(i, z) \<in> set zs. Id z = i)"
proof -
  let ?step = "\<lambda>zone zs.
      if domainFilter p (Zone zone) \<and> zoneTypeFilter p (getZoneType zone) \<and>
         (zoneIDFilter p (Id zone) \<or> zoneIDFilter p (DnsZone.Name zone))
      then AList.update (Id zone) zone zs else zs"
  have inv: "\<forall>(i, z) \<in> set (fold ?step dnsZones acc). Id z = i"
    if "\<forall>(i, z) \<in> set acc. Id z = i" for dnsZones and acc :: "(string \<times> DnsZone) list"
    using that
  proof (induction dnsZones arbitrary: acc)
    case Nil
    then show ?case by simp
  next
    case (Cons zone dnsZones)
    have "\<forall>(i, z) \<in> set (?step zone acc). Id z = i"
      using Cons.prems set_update_subset [of "Id zone" zone acc] by auto
    from Cons.IH [OF this] show ?case by simp
  qed
  from assms obtain dnsZones where "zs = fold ?step dnsZones []"
    by (auto simp: zones_def split: result.splits)
  then show ?thesis
    using inv [of "[]" dnsZones] distinct_keep_fold [of "[]" _ dnsZones] by simp
qed

text \<open>
  C2 (as amended). When \<^verbatim>\<open>List\<close> returns a list of zones, \<^const>\<open>zones\<close> returns a map that holds
  under each id the last listed zone of that id among the zones \<open>z\<close> such that the domain
  filter matches \<open>z.Zone\<close>, the zone type filter matches the visibility of \<open>z\<close> (\<open>public\<close>
  when \<open>PublicVisibility\<close> is non-nil, otherwise \<open>private\<close>) and the zone id filter matches
  \<open>z.Id\<close> or \<open>z.Name\<close>; it holds nothing else. When the listed ids are distinct, a
  listed zone is in the map, under its id, exactly when it passes the three filters.
\<close>

theorem zones_filtered:
  assumes "List c s (folder p) = Ok dnsZones"
  shows "\<exists>zs. zones p c s = Ok zs \<and> distinct (map fst zs) \<and>
     (\<forall>i. map_of zs i =
        find (\<lambda>z. Id z = i \<and> domainFilter p (Zone z) \<and>
                 zoneTypeFilter p (if PublicVisibility z \<noteq> None then ''public'' else ''private'') \<and>
                 (zoneIDFilter p (Id z) \<or> zoneIDFilter p (DnsZone.Name z)))
          (rev dnsZones)) \<and>
     (distinct (map Id dnsZones) \<longrightarrow>
        (\<forall>z \<in> set dnsZones. map_of zs (Id z) = Some z \<longleftrightarrow>
           domainFilter p (Zone z) \<and>
           zoneTypeFilter p (if PublicVisibility z \<noteq> None then ''public'' else ''private'') \<and>
           (zoneIDFilter p (Id z) \<or> zoneIDFilter p (DnsZone.Name z))))"
proof -
  let ?keep = "\<lambda>z. domainFilter p (Zone z) \<and> zoneTypeFilter p (getZoneType z) \<and>
                 (zoneIDFilter p (Id z) \<or> zoneIDFilter p (DnsZone.Name z))"
  let ?zs = "fold (\<lambda>zone zs. if ?keep zone then AList.update (Id zone) zone zs else zs) dnsZones []"
  have z: "zones p c s = Ok ?zs"
    using assms by (simp add: zones_def)
  have d: "distinct (map fst ?zs)"
    by (rule distinct_keep_fold) simp
  have m: "map_of ?zs i = find (\<lambda>z. Id z = i \<and> ?keep z) (rev dnsZones)" for i
    by (simp add: map_of_keep_fold [of ?keep] split: option.splits)
  have l: "map_of ?zs (Id z) = Some z \<longleftrightarrow> ?keep z"
    if "distinct (map Id dnsZones)" "z \<in> set dnsZones" for z
    unfolding m using find_last_distinct [OF that, of ?keep] by simp
  have k: "?keep = (\<lambda>z. domainFilter p (Zone z) \<and>
                 zoneTypeFilter p (if PublicVisibility z \<noteq> None then ''public'' else ''private'') \<and>
                 (zoneIDFilter p (Id z) \<or> zoneIDFilter p (DnsZone.Name z)))"
    by (simp add: getZoneType_def)
  show ?thesis
  proof (intro exI conjI allI impI ballI)
    show "zones p c s = Ok ?zs" by (rule z)
    show "distinct (map fst ?zs)" by (rule d)
    show "map_of ?zs i = find (\<lambda>z. Id z = i \<and> domainFilter p (Zone z) \<and>
                 zoneTypeFilter p (if PublicVisibility z \<noteq> None then ''public'' else ''private'') \<and>
                 (zoneIDFilter p (Id z) \<or> zoneIDFilter p (DnsZone.Name z))) (rev dnsZones)" for i
      unfolding m by (simp add: getZoneType_def)
    show "map_of ?zs (Id z) = Some z \<longleftrightarrow>
           domainFilter p (Zone z) \<and>
           zoneTypeFilter p (if PublicVisibility z \<noteq> None then ''public'' else ''private'') \<and>
           (zoneIDFilter p (Id z) \<or> zoneIDFilter p (DnsZone.Name z))"
      if "distinct (map Id dnsZones)" "z \<in> set dnsZones" for z
      using l [OF that] by (simp add: getZoneType_def)
  qed
qed

theorem zones_filtered_witness:
  "List (mockClient inOrder) exampleClient (folder nameFilterProvider) = Ok [exampleZone] \<and>
   distinct (map Id [exampleZone]) \<and>
   (\<exists>zs. zones nameFilterProvider (mockClient inOrder) exampleClient = Ok zs \<and>
      map_of zs (Id exampleZone) = Some exampleZone)"
proof -
  have h: "List (mockClient inOrder) exampleClient (folder nameFilterProvider) = Ok [exampleZone]"
    by (simp add: mockClient_def List_mock_def rangeValues_def rangeMap_def inOrder_def
        List.map_filter_simps exampleClient_def)
  have k: "zoneIDFilter nameFilterProvider (DnsZone.Name exampleZone)"
    "domainFilter nameFilterProvider (Zone exampleZone)"
    "zoneTypeFilter nameFilterProvider (if PublicVisibility exampleZone \<noteq> None then ''public'' else ''private'')"
    by (simp_all add: nameFilterProvider_def exampleZone_def HasSuffix_def)
  from zones_filtered [OF h] obtain zs where
    z: "zones nameFilterProvider (mockClient inOrder) exampleClient = Ok zs"
    and m: "distinct (map Id [exampleZone]) \<longrightarrow>
        (\<forall>z \<in> set [exampleZone]. map_of zs (Id z) = Some z \<longleftrightarrow>
           domainFilter nameFilterProvider (Zone z) \<and>
           zoneTypeFilter nameFilterProvider (if PublicVisibility z \<noteq> None then ''public'' else ''private'') \<and>
           (zoneIDFilter nameFilterProvider (Id z) \<or> zoneIDFilter nameFilterProvider (DnsZone.Name z)))"
    by blast
  from m k have "map_of zs (Id exampleZone) = Some exampleZone" by simp
  with h z show ?thesis by simp
qed

text \<open>
  The claim C2 as stated fails: with a zone id filter that matches the name of a zone and
  not its id, the zone is kept.
\<close>

theorem zones_keeps_name_match:
  "zones nameFilterProvider (mockClient inOrder) exampleClient = Ok [(''dns1'', exampleZone)] \<and>
   \<not> zoneIDFilter nameFilterProvider (Id exampleZone)"
  by (simp add: zones_def mockClient_def List_mock_def rangeValues_def rangeMap_def inOrder_def
      List.map_filter_simps exampleClient_def exampleZone_def nameFilterProvider_def HasSuffix_def getZoneType_def)

section \<open>Conversion of endpoints\<close>

lemma endpointToRecordSet_None_iff:
  "endpointToRecordSet fw e = None \<longleftrightarrow> RecordType e = RecordTypeCNAME \<and> Targets e = []"
  by (simp add: endpointToRecordSet_def Let_def)

lemma endpointsToRecordSets_Some_iff:
  "endpointsToRecordSets fw p es = Some rs \<longleftrightarrow>
     map Some rs = map (endpointToRecordSet fw) (filter (\<lambda>e. domainFilter p (DNSName e)) es)"
proof (induction es arbitrary: rs)
  case Nil
  then show ?case by auto
next
  case (Cons e es)
  show ?case
  proof (cases "domainFilter p (DNSName e)")
    case False
    then show ?thesis by (simp add: Cons.IH)
  next
    case True
    show ?thesis
    proof (cases "endpointToRecordSet fw e")
      case None
      with True show ?thesis by (auto simp: map_eq_Cons_conv)
    next
      case (Some r)
      with True show ?thesis
        by (cases rs) (auto simp: Cons.IH)
    qed
  qed
qed

lemma endpointsToRecordSets_None_iff:
  "endpointsToRecordSets fw p es = None \<longleftrightarrow>
     (\<exists>e \<in> set es. domainFilter p (DNSName e) \<and> endpointToRecordSet fw e = None)"
  by (induction es) (auto split: option.splits)

lemma updateRequest_None_iff:
  "updateRequest fw p changes = None \<longleftrightarrow>
     (\<exists>e \<in> set (Create changes @ Delete changes @ UpdateOld changes @ UpdateNew changes).
        domainFilter p (DNSName e) \<and> endpointToRecordSet fw e = None)"
proof -
  have "updateRequest fw p changes = None \<longleftrightarrow>
      endpointsToRecordSets fw p (Create changes) = None \<or>
      endpointsToRecordSets fw p (Delete changes) = None \<or>
      endpointsToRecordSets fw p (UpdateOld changes) = None \<or>
      endpointsToRecordSets fw p (UpdateNew changes) = None"
    by (simp add: updateRequest_def split: option.splits)
  then show ?thesis
    unfolding endpointsToRecordSets_None_iff by auto
qed

lemma updateRequest_Some:
  assumes "updateRequest fw p changes = Some request"
  shows "endpointsToRecordSets fw p (Create changes @ UpdateNew changes) = Some (Additions request) \<and>
         endpointsToRecordSets fw p (Delete changes @ UpdateOld changes) = Some (Deletions request) \<and>
         DnsZoneId request = ''''"
proof -
  from assms obtain cr de uo un where
    c: "endpointsToRecordSets fw p (Create changes) = Some cr"
       "endpointsToRecordSets fw p (Delete changes) = Some de"
       "endpointsToRecordSets fw p (UpdateOld changes) = Some uo"
       "endpointsToRecordSets fw p (UpdateNew changes) = Some un"
    and r: "request = \<lparr>DnsZoneId = '''', Deletions = de @ uo, Additions = cr @ un\<rparr>"
    by (auto simp: updateRequest_def split: option.splits)
  from c show ?thesis
    unfolding r endpointsToRecordSets_Some_iff by simp
qed

text \<open>
  C3. The combined update request of \<^verbatim>\<open>ApplyChanges\<close>: its additions are the converted
  \<open>Create\<close> endpoints followed by the converted \<open>UpdateNew\<close> endpoints, its deletions the
  converted \<open>Delete\<close> endpoints followed by the converted \<open>UpdateOld\<close> endpoints, where
  the conversion keeps exactly the endpoints whose DNS name matches the domain filter, in
  their order. No request is built only when the conversion of a kept endpoint panics.
\<close>

theorem updateRequest_contents:
  "case updateRequest fw p changes of
     Some request \<Rightarrow>
       map Some (Additions request) =
         map (endpointToRecordSet fw) (filter (\<lambda>e. domainFilter p (DNSName e)) (Create changes)) @
         map (endpointToRecordSet fw) (filter (\<lambda>e. domainFilter p (DNSName e)) (UpdateNew changes)) \<and>
       map Some (Deletions request) =
         map (endpointToRecordSet fw) (filter (\<lambda>e. domainFilter p (DNSName e)) (Delete changes)) @
         map (endpointToRecordSet fw) (filter (\<lambda>e. domainFilter p (DNSName e)) (UpdateOld changes))
   | None \<Rightarrow>
       \<exists>e \<in> set (Create changes @ Delete changes @ UpdateOld changes @ UpdateNew changes).
         domainFilter p (DNSName e) \<and> endpointToRecordSet fw e = None"
proof (cases "updateRequest fw p changes")
  case None
  then show ?thesis
    using updateRequest_None_iff [of fw p changes] by simp
next
  case (Some request)
  from updateRequest_Some [OF Some] show ?thesis
    unfolding Some endpointsToRecordSets_Some_iff by simp
qed

theorem updateRequest_contents_witness:
  "updateRequest exampleFramework dryRunProvider exampleChanges =
     Some \<lparr>DnsZoneId = '''', Deletions = [],
           Additions = [\<lparr>Name = ''www.example.com.'', Type = ''CNAME'', Ttl = 300,
                         Data = [''host.example.com.'']\<rparr>]\<rparr> \<and>
   endpointToRecordSet exampleFramework exampleCNAME =
     Some \<lparr>Name = ''www.example.com.'', Type = ''CNAME'', Ttl = 300, Data = [''host.example.com.'']\<rparr>"
  using updateRequest_contents [where fw = exampleFramework and p = dryRunProvider and changes = exampleChanges]
  by (simp add: updateRequest_def endpointToRecordSet_def exampleFramework_defs dryRunProvider_def
      exampleChanges_def exampleCNAME_def RecordTypeCNAME_def yandexRecordTTL_def)


text \<open>
  C10. For a CNAME endpoint with at least one target the index 0 is in bounds and
  \<^const>\<open>endpointToRecordSet\<close> returns the record set with the trailing dot on the name and
  on the first target, with TTL 300 when the TTL of the endpoint is not configured. For a
  CNAME endpoint without targets the index is out of range and the conversion panics. So
  when \<^const>\<open>ApplyChanges\<close> does not panic, every CNAME endpoint of the changes that matches
  the domain filter has a target.
\<close>

theorem endpointToRecordSet_CNAME_target:
  "(RecordType e = RecordTypeCNAME \<and> Targets e \<noteq> [] \<longrightarrow>
      0 < length (Targets e) \<and>
      endpointToRecordSet fw e =
        Some \<lparr>Name = EnsureTrailingDot fw (DNSName e),
              Type = RecordTypeCNAME,
              Ttl = (if IsConfigured fw (RecordTTL e) then RecordTTL e else 300),
              Data = EnsureTrailingDot fw (hd (Targets e)) # tl (Targets e)\<rparr>) \<and>
   (RecordType e = RecordTypeCNAME \<and> Targets e = [] \<longrightarrow>
      \<not> 0 < length (Targets e) \<and> endpointToRecordSet fw e = None) \<and>
   (fst (ApplyChanges fw ord p c s changes) \<noteq> Panic \<longrightarrow>
      (\<forall>e' \<in> set (Create changes @ UpdateOld changes @ UpdateNew changes @ Delete changes).
         domainFilter p (DNSName e') \<and> RecordType e' = RecordTypeCNAME \<longrightarrow> Targets e' \<noteq> []))"
proof (intro conjI impI)
  assume a: "RecordType e = RecordTypeCNAME \<and> Targets e \<noteq> []"
  then obtain t ts where t: "Targets e = t # ts" by (cases "Targets e") auto
  with a show "endpointToRecordSet fw e =
        Some \<lparr>Name = EnsureTrailingDot fw (DNSName e),
              Type = RecordTypeCNAME,
              Ttl = (if IsConfigured fw (RecordTTL e) then RecordTTL e else 300),
              Data = EnsureTrailingDot fw (hd (Targets e)) # tl (Targets e)\<rparr>"
    by (simp add: endpointToRecordSet_def Let_def yandexRecordTTL_def)
  from t show "0 < length (Targets e)" by simp
next
  assume "RecordType e = RecordTypeCNAME \<and> Targets e = []"
  then show "endpointToRecordSet fw e = None" "\<not> 0 < length (Targets e)"
    by (simp_all add: endpointToRecordSet_None_iff)
next
  assume n: "fst (ApplyChanges fw ord p c s changes) \<noteq> Panic"
  have "updateRequest fw p changes \<noteq> None"
  proof
    assume "updateRequest fw p changes = None"
    then have "fst (ApplyChanges fw ord p c s changes) = Panic"
      by (simp add: ApplyChanges_def)
    with n show False by simp
  qed
  then show "\<forall>e' \<in> set (Create changes @ UpdateOld changes @ UpdateNew changes @ Delete changes).
         domainFilter p (DNSName e') \<and> RecordType e' = RecordTypeCNAME \<longrightarrow> Targets e' \<noteq> []"
    unfolding updateRequest_None_iff endpointToRecordSet_None_iff by auto
qed

theorem endpointToRecordSet_CNAME_target_witness:
  "RecordType exampleCNAME = RecordTypeCNAME \<and> Targets exampleCNAME \<noteq> [] \<and>
   \<not> IsConfigured exampleFramework (RecordTTL exampleCNAME) \<and>
   endpointToRecordSet exampleFramework exampleCNAME =
     Some \<lparr>Name = ''www.example.com.'', Type = ''CNAME'', Ttl = 300, Data = [''host.example.com.'']\<rparr> \<and>
   RecordType emptyCNAME = RecordTypeCNAME \<and> Targets emptyCNAME = [] \<and>
   endpointToRecordSet exampleFramework emptyCNAME = None \<and>
   fst (ApplyChanges exampleFramework inOrder dryRunProvider failingClient () exampleChanges) \<noteq> Panic \<and>
   domainFilter dryRunProvider (DNSName exampleCNAME) \<and>
   exampleCNAME \<in> set (Create exampleChanges @ UpdateOld exampleChanges @ UpdateNew exampleChanges @
     Delete exampleChanges)"
proof -
  have b: "RecordType emptyCNAME = RecordTypeCNAME \<and> Targets emptyCNAME = []"
    and n: "\<not> IsConfigured exampleFramework (RecordTTL exampleCNAME)"
    and r: "RecordType exampleCNAME = RecordTypeCNAME"
    and m: "domainFilter dryRunProvider (DNSName exampleCNAME)"
    and i: "exampleCNAME \<in> set (Create exampleChanges @ UpdateOld exampleChanges @
        UpdateNew exampleChanges @ Delete exampleChanges)"
    by (simp_all add: exampleCNAME_def emptyCNAME_def RecordTypeCNAME_def exampleFramework_defs
        dryRunProvider_def exampleChanges_def)
  have p: "fst (ApplyChanges exampleFramework inOrder dryRunProvider failingClient () exampleChanges) \<noteq>
      Panic"
    by (simp add: ApplyChanges_def updateRequest_def endpointToRecordSet_def zones_def
        dryRunProvider_def failingClient_def exampleChanges_def exampleCNAME_def
        exampleFramework_defs RecordTypeCNAME_def)
  from endpointToRecordSet_CNAME_target
    [where fw = exampleFramework and ord = inOrder and p = dryRunProvider and c = failingClient
      and s = "()" and changes = exampleChanges,
      THEN conjunct2, THEN conjunct2, THEN mp, OF p, THEN bspec, OF i] m r
  have t: "Targets exampleCNAME \<noteq> []"
    by simp
  with r have a: "RecordType exampleCNAME = RecordTypeCNAME \<and> Targets exampleCNAME \<noteq> []"
    by simp
  from endpointToRecordSet_CNAME_target
    [where e = exampleCNAME and fw = exampleFramework, THEN conjunct1, THEN mp, OF a]
  have "endpointToRecordSet exampleFramework exampleCNAME =
        Some \<lparr>Name = EnsureTrailingDot exampleFramework (DNSName exampleCNAME),
              Type = RecordTypeCNAME,
              Ttl = (if IsConfigured exampleFramework (RecordTTL exampleCNAME)
                     then RecordTTL exampleCNAME else 300),
              Data = EnsureTrailingDot exampleFramework (hd (Targets exampleCNAME)) #
                     tl (Targets exampleCNAME)\<rparr>"
    by (rule conjunct2)
  then have c: "endpointToRecordSet exampleFramework exampleCNAME =
     Some \<lparr>Name = ''www.example.com.'', Type = ''CNAME'', Ttl = 300, Data = [''host.example.com.'']\<rparr>"
    by (simp add: exampleFramework_defs exampleCNAME_def RecordTypeCNAME_def)
  from endpointToRecordSet_CNAME_target
    [where e = emptyCNAME and fw = exampleFramework, THEN conjunct2, THEN conjunct1, THEN mp, OF b]
  have d: "endpointToRecordSet exampleFramework emptyCNAME = None"
    by (rule conjunct2)
  from a b n c d p m i show ?thesis by blast
qed

section \<open>Separation of changes by zone\<close>

lemma set_rangeMap: "set (rangeMap ord m) \<subseteq> set m"
  by (auto simp: rangeMap_def List.map_filter_def dest: map_of_SomeD)

lemma keys_fold_update:
  "fst ` set (fold (\<lambda>z m. AList.update (k z) (f z) m) zs acc) = k ` set zs \<union> fst ` set acc"
proof (induction zs arbitrary: acc)
  case Nil
  then show ?case by simp
next
  case (Cons z zs)
  show ?case by (simp add: Cons.IH dom_update Un_assoc [symmetric] Un_commute)
qed

lemma distinct_fold_update:
  "distinct (map fst acc) \<Longrightarrow>
   distinct (map fst (fold (\<lambda>z m. AList.update (k z) (f z) m) zs acc))"
  by (induction zs arbitrary: acc) (simp_all add: distinct_update)

lemma map_of_empty_requests:
  "map_of (fold (\<lambda>zone m. AList.update (Id zone)
                   \<lparr>DnsZoneId = Id zone, Deletions = [], Additions = []\<rparr> m) zs acc) i =
     (if i \<in> Id ` set zs then Some \<lparr>DnsZoneId = i, Deletions = [], Additions = []\<rparr>
      else map_of acc i)"
  by (induction zs arbitrary: acc) (auto simp: update_conv')

lemma map_of_filter_distinct:
  "distinct (map fst al) \<Longrightarrow>
   map_of (filter (\<lambda>(k, v). P v) al) i =
     (case map_of al i of None \<Rightarrow> None | Some v \<Rightarrow> if P v then Some v else None)"
proof (induction al)
  case Nil
  then show ?case by simp
next
  case (Cons kv al)
  obtain k v where kv: "kv = (k, v)" by (cases kv)
  from Cons.prems kv have n: "k \<notin> fst ` set al" and d: "distinct (map fst al)" by auto
  from n have "k \<notin> fst ` set (filter (\<lambda>(k, v). P v) al)" by auto
  then have e: "map_of (filter (\<lambda>(k, v). P v) al) k = None"
    by (simp only: map_of_eq_None_iff not_False_eq_True)
  show ?case
  proof (cases "k = i")
    case True
    with e kv show ?thesis by simp
  next
    case False
    with kv Cons.IH [OF d] show ?thesis by simp
  qed
qed

lemma longestMatch_mem:
  "longestMatch h es best = Some e \<Longrightarrow> e \<in> set es \<or> best = Some e"
  by (induction h es best rule: longestMatch.induct) (auto split: if_splits)

lemma fst_FindZone:
  assumes "fst (FindZone es h) \<noteq> ''''"
  shows "fst (FindZone es h) \<in> fst ` set es"
proof (cases "longestMatch h es None")
  case None
  with assms show ?thesis by (simp add: FindZone_def)
next
  case (Some e)
  from longestMatch_mem [OF Some] have "e \<in> set es" by simp
  with Some show ?thesis by (simp add: FindZone_def)
qed

lemma routeAdditions_spec:
  assumes "\<And>name. findZone name \<noteq> '''' \<Longrightarrow> findZone name \<in> fst ` set changes"
  shows "\<exists>c'. routeAdditions findZone as changes = Some c' \<and> map fst c' = map fst changes \<and>
     (\<forall>i. map_of c' i =
        map_option (\<lambda>r. r\<lparr>Additions := Additions r @
                       filter (\<lambda>a. findZone (RecordSet.Name a) = i \<and> i \<noteq> '''') as\<rparr>)
          (map_of changes i))"
  using assms
proof (induction as arbitrary: changes)
  case Nil
  show ?case by (simp add: option.map_ident)
next
  case (Cons a as)
  let ?z = "findZone (RecordSet.Name a)"
  show ?case
  proof (cases "?z = ''''")
    case True
    from Cons.IH [OF Cons.prems] obtain c' where
      c: "routeAdditions findZone as changes = Some c'" "map fst c' = map fst changes"
        "\<And>i. map_of c' i =
          map_option (\<lambda>r. r\<lparr>Additions := Additions r @
                       filter (\<lambda>a. findZone (RecordSet.Name a) = i \<and> i \<noteq> '''') as\<rparr>)
            (map_of changes i)"
      by blast
    have f: "filter (\<lambda>a. findZone (RecordSet.Name a) = i \<and> i \<noteq> '''') (a # as) =
             filter (\<lambda>a. findZone (RecordSet.Name a) = i \<and> i \<noteq> '''') as" for i
      using True by auto
    from c True show ?thesis
      unfolding f by (simp add: Let_def)
  next
    case False
    from Cons.prems [OF False] obtain request where r: "map_of changes ?z = Some request"
      by (cases "map_of changes ?z") (simp_all only: map_of_eq_None_iff option.simps, simp)
    let ?changes = "AList.update ?z (request\<lparr>Additions := Additions request @ [a]\<rparr>) changes"
    from Cons.prems [OF False] have k: "map fst ?changes = map fst changes"
      by (simp add: update_keys)
    then have "fst ` set ?changes = fst ` set changes"
      by (metis list.set_map)
    with Cons.prems have "\<And>name. findZone name \<noteq> '''' \<Longrightarrow> findZone name \<in> fst ` set ?changes"
      by simp
    from Cons.IH [OF this] obtain c' where
      c: "routeAdditions findZone as ?changes = Some c'" "map fst c' = map fst ?changes"
        "\<And>i. map_of c' i =
          map_option (\<lambda>r. r\<lparr>Additions := Additions r @
                       filter (\<lambda>a. findZone (RecordSet.Name a) = i \<and> i \<noteq> '''') as\<rparr>)
            (map_of ?changes i)"
      by blast
    have "routeAdditions findZone (a # as) changes = Some c'"
      using False r c(1) by (simp add: Let_def)
    moreover have "map fst c' = map fst changes"
      using c(2) k by simp
    moreover have "map_of c' i =
          map_option (\<lambda>r. r\<lparr>Additions := Additions r @
                       filter (\<lambda>a. findZone (RecordSet.Name a) = i \<and> i \<noteq> '''') (a # as)\<rparr>)
            (map_of changes i)" for i
    proof (cases "i = ?z")
      case True
      with False r show ?thesis
        unfolding c(3) by (simp add: update_conv')
    next
      case False
      then show ?thesis
        unfolding c(3) by (auto simp add: update_conv')
    qed
    ultimately show ?thesis by blast
  qed
qed

lemma routeDeletions_spec:
  assumes "\<And>name. findZone name \<noteq> '''' \<Longrightarrow> findZone name \<in> fst ` set changes"
  shows "\<exists>c'. routeDeletions findZone ds changes = Some c' \<and> map fst c' = map fst changes \<and>
     (\<forall>i. map_of c' i =
        map_option (\<lambda>r. r\<lparr>Deletions := Deletions r @
                       filter (\<lambda>d. findZone (RecordSet.Name d) = i \<and> i \<noteq> '''') ds\<rparr>)
          (map_of changes i))"
  using assms
proof (induction ds arbitrary: changes)
  case Nil
  show ?case by (simp add: option.map_ident)
next
  case (Cons d ds)
  let ?z = "findZone (RecordSet.Name d)"
  show ?case
  proof (cases "?z = ''''")
    case True
    from Cons.IH [OF Cons.prems] obtain c' where
      c: "routeDeletions findZone ds changes = Some c'" "map fst c' = map fst changes"
        "\<And>i. map_of c' i =
          map_option (\<lambda>r. r\<lparr>Deletions := Deletions r @
                       filter (\<lambda>d. findZone (RecordSet.Name d) = i \<and> i \<noteq> '''') ds\<rparr>)
            (map_of changes i)"
      by blast
    have f: "filter (\<lambda>d. findZone (RecordSet.Name d) = i \<and> i \<noteq> '''') (d # ds) =
             filter (\<lambda>d. findZone (RecordSet.Name d) = i \<and> i \<noteq> '''') ds" for i
      using True by auto
    from c True show ?thesis
      unfolding f by (simp add: Let_def)
  next
    case False
    from Cons.prems [OF False] obtain request where r: "map_of changes ?z = Some request"
      by (cases "map_of changes ?z") (simp_all only: map_of_eq_None_iff option.simps, simp)
    let ?changes = "AList.update ?z (request\<lparr>Deletions := Deletions request @ [d]\<rparr>) changes"
    from Cons.prems [OF False] have k: "map fst ?changes = map fst changes"
      by (simp add: update_keys)
    then have "fst ` set ?changes = fst ` set changes"
      by (metis list.set_map)
    with Cons.prems have "\<And>name. findZone name \<noteq> '''' \<Longrightarrow> findZone name \<in> fst ` set ?changes"
      by simp
    from Cons.IH [OF this] obtain c' where
      c: "routeDeletions findZone ds ?changes = Some c'" "map fst c' = map fst ?changes"
        "\<And>i. map_of c' i =
          map_option (\<lambda>r. r\<lparr>Deletions := Deletions r @
                       filter (\<lambda>d. findZone (RecordSet.Name d) = i \<and> i \<noteq> '''') ds\<rparr>)
            (map_of ?changes i)"
      by blast
    have "routeDeletions findZone (d # ds) changes = Some c'"
      using False r c(1) by (simp add: Let_def)
    moreover have "map fst c' = map fst changes"
      using c(2) k by simp
    moreover have "map_of c' i =
          map_option (\<lambda>r. r\<lparr>Deletions := Deletions r @
                       filter (\<lambda>d. findZone (RecordSet.Name d) = i \<and> i \<noteq> '''') (d # ds)\<rparr>)
            (map_of changes i)" for i
    proof (cases "i = ?z")
      case True
      with False r show ?thesis
        unfolding c(3) by (simp add: update_conv')
    next
      case False
      then show ?thesis
        unfolding c(3) by (auto simp add: update_conv')
    qed
    ultimately show ?thesis by blast
  qed
qed


lemma separateChange_spec:
  fixes fw ord zs change
  defines "visited \<equiv> rangeValues ord zs"
  defines "mapper \<equiv> fold (\<lambda>zone m. AList.update (Id zone) (Zone zone) m) visited []"
  defines "findZone \<equiv> \<lambda>name. fst (FindZone (rangeMap ord mapper) (EnsureTrailingDot fw name))"
  defines "adds \<equiv> \<lambda>i. filter (\<lambda>a. findZone (RecordSet.Name a) = i \<and> i \<noteq> '''') (Additions change)"
  defines "dels \<equiv> \<lambda>i. filter (\<lambda>d. findZone (RecordSet.Name d) = i \<and> i \<noteq> '''') (Deletions change)"
  shows "\<exists>separated. separateChange fw ord zs change = Some separated \<and>
     distinct (map fst separated) \<and>
     (\<forall>i. map_of separated i =
        (if i \<in> Id ` set visited \<and> (adds i \<noteq> [] \<or> dels i \<noteq> [])
         then Some \<lparr>DnsZoneId = i, Deletions = dels i, Additions = adds i\<rparr> else None))"
proof -
  let ?changes = "fold (\<lambda>zone m. AList.update (Id zone)
                    \<lparr>DnsZoneId = Id zone, Deletions = [], Additions = []\<rparr> m) visited []"
  have keys: "fst ` set ?changes = Id ` set visited"
    using keys_fold_update [of Id _ visited "[]"] by simp
  have dist: "distinct (map fst ?changes)"
    by (rule distinct_fold_update) simp
  have m0: "map_of ?changes i =
     (if i \<in> Id ` set visited then Some \<lparr>DnsZoneId = i, Deletions = [], Additions = []\<rparr> else None)" for i
    by (simp add: map_of_empty_requests)
  have closed: "findZone name \<in> fst ` set ?changes" if "findZone name \<noteq> ''''" for name
  proof -
    from that have "findZone name \<in> fst ` set (rangeMap ord mapper)"
      unfolding findZone_def by (rule fst_FindZone)
    also have "\<dots> \<subseteq> fst ` set mapper"
      using set_rangeMap [of ord mapper] by (rule image_mono)
    also have "\<dots> = Id ` set visited"
      unfolding mapper_def using keys_fold_update [of Id Zone visited "[]"] by simp
    finally show ?thesis unfolding keys .
  qed
  from routeAdditions_spec [of findZone ?changes "Additions change", OF closed] obtain c1 where
    c1: "routeAdditions findZone (Additions change) ?changes = Some c1"
      "map fst c1 = map fst ?changes"
      "\<And>i. map_of c1 i = map_option (\<lambda>r. r\<lparr>Additions := Additions r @ adds i\<rparr>) (map_of ?changes i)"
    unfolding adds_def by blast
  from c1(2) have k1: "fst ` set c1 = fst ` set ?changes"
    by (metis list.set_map)
  have "\<And>name. findZone name \<noteq> '''' \<Longrightarrow> findZone name \<in> fst ` set c1"
    unfolding k1 by (rule closed)
  from routeDeletions_spec [of findZone c1 "Deletions change", OF this] obtain c2 where
    c2: "routeDeletions findZone (Deletions change) c1 = Some c2"
      "map fst c2 = map fst c1"
      "\<And>i. map_of c2 i = map_option (\<lambda>r. r\<lparr>Deletions := Deletions r @ dels i\<rparr>) (map_of c1 i)"
    unfolding dels_def by blast
  have m2: "map_of c2 i =
     (if i \<in> Id ` set visited then Some \<lparr>DnsZoneId = i, Deletions = dels i, Additions = adds i\<rparr>
      else None)" for i
    unfolding c2(3) c1(3) m0 by simp
  have d2: "distinct (map fst c2)"
    using dist c1(2) c2(2) by simp
  let ?keep = "\<lambda>change. \<not> (length (Additions change) = 0 \<and> length (Deletions change) = 0)"
  let ?result = "filter (\<lambda>(zone, change). ?keep change) c2"
  have s: "separateChange fw ord zs change = Some ?result"
    using c1(1) c2(1)
    unfolding separateChange_def visited_def [symmetric] Let_def mapper_def [symmetric]
      findZone_def [symmetric]
    by simp
  have dr: "distinct (map fst ?result)"
    using d2 by (rule distinct_map_filter)
  have mr: "map_of ?result i =
        (if i \<in> Id ` set visited \<and> (adds i \<noteq> [] \<or> dels i \<noteq> [])
         then Some \<lparr>DnsZoneId = i, Deletions = dels i, Additions = adds i\<rparr> else None)" for i
    unfolding map_of_filter_distinct [OF d2, of ?keep] m2 by simp
  from s dr mr show ?thesis by blast
qed

subsection \<open>Runs on the example data\<close>

lemma ex_updateRequest:
  "updateRequest exampleFramework liveProvider conflictingChanges =
     Some \<lparr>DnsZoneId = '''', Deletions = [], Additions = [conflictingRecordSet]\<rparr>"
  by (simp add: updateRequest_def endpointToRecordSet_def exampleFramework_defs liveProvider_def
      conflictingChanges_def conflictingA_def conflictingRecordSet_def RecordTypeCNAME_def yandexRecordTTL_def)

lemma ex_zones:
  "zones liveProvider (mockClient inOrder) storedClient = Ok [(''dns1'', exampleZone)]"
  by (simp add: zones_def mockClient_def List_mock_def rangeValues_def rangeMap_def inOrder_def
      storedClient_def exampleZone_def liveProvider_def getZoneType_def)

lemma ex3_EnsureTrailingDot:
  "EnsureTrailingDot exampleFramework ''www.example.com.'' = ''www.example.com.''"
  "EnsureTrailingDot exampleFramework ''a.sub.example.com.'' = ''a.sub.example.com.''"
  "EnsureTrailingDot exampleFramework ''old.sub.example.com.'' = ''old.sub.example.com.''"
  "EnsureTrailingDot exampleFramework ''www.example.org.'' = ''www.example.org.''"
  "EnsureTrailingDot exampleFramework ''www.example.net.'' = ''www.example.net.''"
  by (simp_all add: exampleFramework_defs)

lemma ex3_updateRequest:
  "updateRequest exampleFramework liveProvider threeZoneChanges = Some threeZoneCombined"
  by (simp add: updateRequest_def endpointToRecordSet_def exampleFramework_defs liveProvider_def
      threeZoneChanges_def threeZoneCombined_def exampleA_def conflictSub_def oldSub_def orgA_def
      RecordTypeCNAME_def yandexRecordTTL_def)

lemma ex3_zones_mock:
  "zones liveProvider (mockClient inOrder) threeZoneClient = Ok threeZones"
  by (simp add: zones_def mockClient_def List_mock_def rangeValues_def rangeMap_def inOrder_def
      List.map_filter_def threeZoneClient_def threeZones_def exampleZone_def subZone_def
      orgZone_def liveProvider_def getZoneType_def)

lemma ex3_zones_failing:
  "zones liveProvider failingSubClient s = Ok threeZones"
  by (simp add: zones_def failingSubClient_def threeZones_def exampleZone_def subZone_def
      orgZone_def liveProvider_def getZoneType_def)

lemma ex3_visited:
  "rangeValues inOrder threeZones = [exampleZone, subZone, orgZone]"
  by (simp add: rangeValues_def rangeMap_def inOrder_def List.map_filter_def threeZones_def)

lemma ex3_mapper:
  "rangeMap inOrder [(''dns1'', ''example.com.''), (''dns2'', ''sub.example.com.''),
      (''dns3'', ''example.org.'')] =
   [(''dns1'', ''example.com.''), (''dns2'', ''sub.example.com.''), (''dns3'', ''example.org.'')]"
  by (simp add: rangeMap_def inOrder_def List.map_filter_def)

lemma ex3_FindZone:
  "FindZone [(''dns1'', ''example.com.''), (''dns2'', ''sub.example.com.''),
      (''dns3'', ''example.org.'')] ''www.example.com.'' = (''dns1'', ''example.com.'')"
  "FindZone [(''dns1'', ''example.com.''), (''dns2'', ''sub.example.com.''),
      (''dns3'', ''example.org.'')] ''a.sub.example.com.'' = (''dns2'', ''sub.example.com.'')"
  "FindZone [(''dns1'', ''example.com.''), (''dns2'', ''sub.example.com.''),
      (''dns3'', ''example.org.'')] ''old.sub.example.com.'' = (''dns2'', ''sub.example.com.'')"
  "FindZone [(''dns1'', ''example.com.''), (''dns2'', ''sub.example.com.''),
      (''dns3'', ''example.org.'')] ''www.example.org.'' = (''dns3'', ''example.org.'')"
  by (simp_all add: FindZone_def HasSuffix_def)

lemma ex3_separate:
  "separateChange exampleFramework inOrder threeZones threeZoneCombined =
     Some [(''dns1'', comRequest), (''dns2'', subRequest), (''dns3'', orgRequest)]"
  unfolding separateChange_def Let_def ex3_visited
  by (simp add: Let_def ex3_mapper ex3_FindZone ex3_EnsureTrailingDot threeZoneCombined_def
      exampleZone_def subZone_def orgZone_def exampleA_def conflictSub_def oldSub_def orgA_def
      comRequest_def subRequest_def orgRequest_def)

lemma ex3_requests:
  "rangeValues inOrder [(''dns1'', comRequest), (''dns2'', subRequest), (''dns3'', orgRequest)] =
     [comRequest] @ subRequest # [orgRequest]"
  by (simp add: rangeValues_def rangeMap_def inOrder_def List.map_filter_def)

lemma ex4_visited:
  "rangeValues inOrder fourZones = [exampleZone, subZone, orgZone, comZone]"
  by (simp add: rangeValues_def rangeMap_def inOrder_def List.map_filter_def fourZones_def)

lemma ex4_mapper:
  "rangeMap inOrder [(''dns1'', ''example.com.''), (''dns2'', ''sub.example.com.''),
      (''dns3'', ''example.org.''), (''dns4'', ''com.'')] =
   [(''dns1'', ''example.com.''), (''dns2'', ''sub.example.com.''), (''dns3'', ''example.org.''),
    (''dns4'', ''com.'')]"
  by (simp add: rangeMap_def inOrder_def List.map_filter_def)

lemma ex4_FindZone:
  "FindZone [(''dns1'', ''example.com.''), (''dns2'', ''sub.example.com.''),
      (''dns3'', ''example.org.''), (''dns4'', ''com.'')] ''a.sub.example.com.'' =
     (''dns2'', ''sub.example.com.'')"
  "FindZone [(''dns1'', ''example.com.''), (''dns2'', ''sub.example.com.''),
      (''dns3'', ''example.org.''), (''dns4'', ''com.'')] ''www.example.net.'' = ('''', '''')"
  "FindZone [(''dns1'', ''example.com.''), (''dns2'', ''sub.example.com.''),
      (''dns3'', ''example.org.''), (''dns4'', ''com.'')] ''www.example.org.'' =
     (''dns3'', ''example.org.'')"
  by (simp_all add: FindZone_def HasSuffix_def)

lemma ex4_separate:
  "separateChange exampleFramework inOrder fourZones fourZoneChange =
     Some [(''dns2'', \<lparr>DnsZoneId = ''dns2'', Deletions = [], Additions = [conflictSub]\<rparr>),
           (''dns3'', \<lparr>DnsZoneId = ''dns3'', Deletions = [orgA], Additions = []\<rparr>)]"
  unfolding separateChange_def Let_def ex4_visited
  by (simp add: Let_def ex4_mapper ex4_FindZone ex3_EnsureTrailingDot fourZoneChange_def
      exampleZone_def subZone_def orgZone_def comZone_def conflictSub_def netA_def orgA_def)

lemma ex4_suffixes:
  "HasSuffix ''a.sub.example.com.'' (Zone exampleZone)"
  "HasSuffix ''a.sub.example.com.'' (Zone subZone)"
  "\<not> HasSuffix ''a.sub.example.com.'' (Zone orgZone)"
  "HasSuffix ''a.sub.example.com.'' (Zone comZone)"
  "\<not> HasSuffix ''www.example.net.'' (Zone exampleZone)"
  "\<not> HasSuffix ''www.example.net.'' (Zone subZone)"
  "\<not> HasSuffix ''www.example.net.'' (Zone orgZone)"
  "\<not> HasSuffix ''www.example.net.'' (Zone comZone)"
  by (simp_all add: HasSuffix_def exampleZone_def subZone_def orgZone_def comZone_def)

subsection \<open>Visiting order and the longest match\<close>

lemma rangeMap_eq_map:
  assumes "set (ord (map fst m)) \<subseteq> set (map fst m)"
  shows "rangeMap ord m = map (\<lambda>k. (k, the (map_of m k))) (ord (map fst m))"
proof -
  have "map_of m k \<noteq> None" if "k \<in> set (ord (map fst m))" for k
    using that assms by (auto simp: map_of_eq_None_iff)
  then have f: "filter (\<lambda>k. map_option (Pair k) (map_of m k) \<noteq> None) (ord (map fst m)) =
      ord (map fst m)"
    by (simp add: filter_id_conv)
  have "map (the \<circ> (\<lambda>k. map_option (Pair k) (map_of m k))) (ord (map fst m)) =
      map (\<lambda>k. (k, the (map_of m k))) (ord (map fst m))"
    using \<open>\<And>k. k \<in> set (ord (map fst m)) \<Longrightarrow> map_of m k \<noteq> None\<close>
    by (intro map_cong refl) (auto simp: option.map_sel)
  with f show ?thesis
    by (simp add: rangeMap_def List.map_filter_def)
qed

lemma rangeMap_perm:
  assumes "distinct (map fst m)" "mset (ord (map fst m)) = mset (map fst m)"
  shows "mset (rangeMap ord m) = mset m"
proof -
  let ?g = "\<lambda>k. (k, the (map_of m k))"
  from assms(2) have "set (ord (map fst m)) = set (map fst m)"
    by (rule mset_eq_setD)
  then have "rangeMap ord m = map ?g (ord (map fst m))"
    by (intro rangeMap_eq_map) simp
  then have "mset (rangeMap ord m) = image_mset ?g (mset (ord (map fst m)))"
    by simp
  also have "\<dots> = image_mset ?g (mset (map fst m))"
    by (simp only: assms(2))
  also have "\<dots> = mset (map (\<lambda>kv. ?g (fst kv)) m)"
    by (simp add: multiset.map_comp comp_def)
  also have "map (\<lambda>kv. ?g (fst kv)) m = m"
  proof (rule map_idI)
    fix kv assume "kv \<in> set m"
    then have "(fst kv, snd kv) \<in> set m" by simp
    with assms(1) have "map_of m (fst kv) = Some (snd kv)"
      by (rule map_of_is_SomeI)
    then show "?g (fst kv) = kv" by simp
  qed
  finally show ?thesis .
qed

lemma update_fresh: "k \<notin> fst ` set al \<Longrightarrow> AList.update k v al = al @ [(k, v)]"
  by (induction al) auto

lemma fold_update_fresh:
  "distinct (map kf zs) \<Longrightarrow> kf ` set zs \<inter> fst ` set acc = {} \<Longrightarrow>
   fold (\<lambda>z m. AList.update (kf z) (f z) m) zs acc = acc @ map (\<lambda>z. (kf z, f z)) zs"
proof (induction zs arbitrary: acc)
  case Nil
  then show ?case by simp
next
  case (Cons z zs)
  from Cons.prems have n: "kf z \<notin> fst ` set acc" by auto
  from Cons.prems have d: "distinct (map kf zs)" by simp
  from Cons.prems have "kf ` set zs \<inter> fst ` set (acc @ [(kf z, f z)]) = {}" by auto
  from Cons.IH [OF d this] show ?case
    by (simp add: update_fresh [OF n])
qed

lemma longestMatch_None_iff:
  "longestMatch h es best = None \<longleftrightarrow> best = None \<and> (\<forall>(i, n) \<in> set es. \<not> HasSuffix h n)"
  by (induction h es best rule: longestMatch.induct) auto

lemma longestMatch_Some:
  "longestMatch h es best = Some (i, n) \<Longrightarrow>
     (best = Some (i, n) \<or> ((i, n) \<in> set es \<and> HasSuffix h n)) \<and>
     (\<forall>(i', n') \<in> set es. HasSuffix h n' \<longrightarrow> length n' \<le> length n) \<and>
     (\<forall>bi bn. best = Some (bi, bn) \<longrightarrow> length bn \<le> length n)"
proof (induction h es best rule: longestMatch.induct)
  case (1 hostname best)
  then show ?case by simp
next
  case (2 hostname zoneID zoneName rest best)
  let ?best = "if HasSuffix hostname zoneName \<and>
           (case best of None \<Rightarrow> True | Some (_, bestName) \<Rightarrow> length bestName < length zoneName)
        then Some (zoneID, zoneName) else best"
  from "2.prems" have "longestMatch hostname rest ?best = Some (i, n)" by simp
  from "2.IH" [OF this] have
    a: "?best = Some (i, n) \<or> ((i, n) \<in> set rest \<and> HasSuffix hostname n)"
    and b: "\<forall>(i', n') \<in> set rest. HasSuffix hostname n' \<longrightarrow> length n' \<le> length n"
    and c: "\<forall>bi bn. ?best = Some (bi, bn) \<longrightarrow> length bn \<le> length n"
    by blast+
  show ?case
  proof (cases "HasSuffix hostname zoneName \<and>
           (case best of None \<Rightarrow> True | Some (_, bestName) \<Rightarrow> length bestName < length zoneName)")
    case True
    with c have l: "length zoneName \<le> length n" by simp
    from True a have "(i, n) \<in> set ((zoneID, zoneName) # rest) \<and> HasSuffix hostname n"
      by auto
    moreover from b l have "\<forall>(i', n') \<in> set ((zoneID, zoneName) # rest).
        HasSuffix hostname n' \<longrightarrow> length n' \<le> length n"
      by simp
    moreover from True l have "\<forall>bi bn. best = Some (bi, bn) \<longrightarrow> length bn \<le> length n"
      by (auto split: option.splits)
    ultimately show ?thesis by blast
  next
    case False
    then have e: "?best = best" by (rule if_not_P)
    from a have a': "best = Some (i, n) \<or> ((i, n) \<in> set rest \<and> HasSuffix hostname n)"
      unfolding e .
    from c have c': "\<forall>bi bn. best = Some (bi, bn) \<longrightarrow> length bn \<le> length n"
      unfolding e .
    have "HasSuffix hostname zoneName \<longrightarrow> length zoneName \<le> length n"
    proof
      assume h: "HasSuffix hostname zoneName"
      with False obtain bi bn where "best = Some (bi, bn)" "\<not> length bn < length zoneName"
        by (cases best) auto
      with c' show "length zoneName \<le> length n" by fastforce
    qed
    with b have "\<forall>(i', n') \<in> set ((zoneID, zoneName) # rest).
        HasSuffix hostname n' \<longrightarrow> length n' \<le> length n"
      by simp
    with a' c' show ?thesis by auto
  qed
qed

lemma FindZone_no_match:
  assumes "\<forall>(i, n) \<in> set es. \<not> HasSuffix h n"
  shows "FindZone es h = ('''', '''')"
  using assms longestMatch_None_iff [of h es None] by (simp add: FindZone_def)

lemma FindZone_match:
  assumes "\<exists>(i, n) \<in> set es. HasSuffix h n"
  shows "FindZone es h \<in> set es \<and> HasSuffix h (snd (FindZone es h)) \<and>
     (\<forall>(i', n') \<in> set es. HasSuffix h n' \<longrightarrow> length n' \<le> length (snd (FindZone es h)))"
proof -
  from assms have "longestMatch h es None \<noteq> None"
    unfolding longestMatch_None_iff by auto
  then obtain i n where l: "longestMatch h es None = Some (i, n)" by auto
  then have f: "FindZone es h = (i, n)" by (simp add: FindZone_def)
  from longestMatch_Some [OF l] show ?thesis
    unfolding f by simp
qed

lemma rangeValues_wf:
  assumes perm: "\<forall>keys. mset (ord keys) = mset keys"
    and d: "distinct (map fst zs)" and k: "\<forall>(k, zone) \<in> set zs. Id zone = k"
  shows "set (rangeValues ord zs) = snd ` set zs"
    and "distinct (map Id (rangeValues ord zs))"
    and "Id ` set (rangeValues ord zs) = fst ` set zs"
proof -
  from perm have "mset (ord (map fst zs)) = mset (map fst zs)" by simp
  with d have m: "mset (rangeMap ord zs) = mset zs" by (rule rangeMap_perm)
  then have s: "set (rangeMap ord zs) = set zs" by (rule mset_eq_setD)
  show v: "set (rangeValues ord zs) = snd ` set zs"
    by (simp add: rangeValues_def s)
  have e: "map Id (rangeValues ord zs) = map fst (rangeMap ord zs)"
    unfolding rangeValues_def map_map
  proof (rule map_cong [OF refl])
    fix kv assume "kv \<in> set (rangeMap ord zs)"
    with s have "(fst kv, snd kv) \<in> set zs" by simp
    with k show "(Id \<circ> snd) kv = fst kv" by auto
  qed
  from m have "mset (map fst (rangeMap ord zs)) = mset (map fst zs)"
    by (metis mset_map)
  with d have "distinct (map fst (rangeMap ord zs))"
    by (metis mset_eq_imp_distinct_iff)
  with e show "distinct (map Id (rangeValues ord zs))" by simp
  have "Id ` set (rangeValues ord zs) = set (map Id (rangeValues ord zs))" by simp
  also have "\<dots> = fst ` set zs" unfolding e using s by simp
  finally show "Id ` set (rangeValues ord zs) = fst ` set zs" .
qed

lemma mapper_wf:
  assumes perm: "\<forall>keys. mset (ord keys) = mset keys"
    and d: "distinct (map fst zs)" and k: "\<forall>(k, zone) \<in> set zs. Id zone = k"
  shows "set (rangeMap ord (fold (\<lambda>zone m. AList.update (Id zone) (Zone zone) m)
                              (rangeValues ord zs) [])) =
         (\<lambda>zone. (Id zone, Zone zone)) ` snd ` set zs"
proof -
  let ?visited = "rangeValues ord zs"
  let ?mapper = "fold (\<lambda>zone m. AList.update (Id zone) (Zone zone) m) ?visited []"
  note w = rangeValues_wf [OF assms]
  have e: "?mapper = map (\<lambda>zone. (Id zone, Zone zone)) ?visited"
    using fold_update_fresh [of Id ?visited "[]" Zone] w(2) by simp
  then have "map fst ?mapper = map Id ?visited" by (simp add: comp_def)
  with w(2) have dm: "distinct (map fst ?mapper)" by simp
  from perm have "mset (ord (map fst ?mapper)) = mset (map fst ?mapper)" by simp
  with dm have "mset (rangeMap ord ?mapper) = mset ?mapper" by (rule rangeMap_perm)
  then have "set (rangeMap ord ?mapper) = set ?mapper" by (rule mset_eq_setD)
  also have "\<dots> = (\<lambda>zone. (Id zone, Zone zone)) ` set ?visited"
    unfolding e by simp
  finally show ?thesis unfolding w(1) .
qed

lemma findZone_wf:
  fixes fw ord zs
  defines "findZone \<equiv> \<lambda>name. fst (FindZone
      (rangeMap ord (fold (\<lambda>zone m. AList.update (Id zone) (Zone zone) m) (rangeValues ord zs) []))
      (EnsureTrailingDot fw name))"
  assumes perm: "\<forall>keys. mset (ord keys) = mset keys"
    and d: "distinct (map fst zs)" and k: "\<forall>(k, zone) \<in> set zs. Id zone = k \<and> k \<noteq> ''''"
  shows "\<not> (\<exists>zone \<in> snd ` set zs. HasSuffix (EnsureTrailingDot fw name) (Zone zone)) \<Longrightarrow>
           findZone name = ''''"
    and "\<exists>zone \<in> snd ` set zs. HasSuffix (EnsureTrailingDot fw name) (Zone zone) \<Longrightarrow>
           \<exists>zone \<in> snd ` set zs. findZone name = Id zone \<and> Id zone \<noteq> '''' \<and>
              HasSuffix (EnsureTrailingDot fw name) (Zone zone) \<and>
              (\<forall>zone' \<in> snd ` set zs. HasSuffix (EnsureTrailingDot fw name) (Zone zone') \<longrightarrow>
                 length (Zone zone') \<le> length (Zone zone))"
proof -
  let ?es = "rangeMap ord (fold (\<lambda>zone m. AList.update (Id zone) (Zone zone) m) (rangeValues ord zs) [])"
  let ?h = "EnsureTrailingDot fw name"
  from k have k': "\<forall>(k, zone) \<in> set zs. Id zone = k" by auto
  have es: "set ?es = (\<lambda>zone. (Id zone, Zone zone)) ` snd ` set zs"
    by (rule mapper_wf [OF perm d k'])
  {
    assume "\<not> (\<exists>zone \<in> snd ` set zs. HasSuffix ?h (Zone zone))"
    then have "\<forall>(i, n) \<in> set ?es. \<not> HasSuffix ?h n"
      unfolding es by auto
    then have "FindZone ?es ?h = ('''', '''')" by (rule FindZone_no_match)
    then show "findZone name = ''''" by (simp add: findZone_def)
  }
  {
    assume "\<exists>zone \<in> snd ` set zs. HasSuffix ?h (Zone zone)"
    then have "\<exists>(i, n) \<in> set ?es. HasSuffix ?h n"
      unfolding es by auto
    from FindZone_match [OF this] have
      f: "FindZone ?es ?h \<in> set ?es" "HasSuffix ?h (snd (FindZone ?es ?h))"
      and mx: "\<forall>(i', n') \<in> set ?es. HasSuffix ?h n' \<longrightarrow> length n' \<le> length (snd (FindZone ?es ?h))"
      by blast+
    from f(1) obtain zone where z: "zone \<in> snd ` set zs" "FindZone ?es ?h = (Id zone, Zone zone)"
      unfolding es by auto
    from z(1) k have ne: "Id zone \<noteq> ''''" by auto
    have "\<forall>zone' \<in> snd ` set zs. HasSuffix ?h (Zone zone') \<longrightarrow> length (Zone zone') \<le> length (Zone zone)"
    proof (intro ballI impI)
      fix zone' assume "zone' \<in> snd ` set zs" "HasSuffix ?h (Zone zone')"
      then have "(Id zone', Zone zone') \<in> set ?es" unfolding es by auto
      with mx \<open>HasSuffix ?h (Zone zone')\<close> show "length (Zone zone') \<le> length (Zone zone)"
        unfolding z(2) by auto
    qed
    with z ne f(2) show "\<exists>zone \<in> snd ` set zs. findZone name = Id zone \<and> Id zone \<noteq> '''' \<and>
              HasSuffix ?h (Zone zone) \<and>
              (\<forall>zone' \<in> snd ` set zs. HasSuffix ?h (Zone zone') \<longrightarrow>
                 length (Zone zone') \<le> length (Zone zone))"
      unfolding findZone_def by auto
  }
qed

text \<open>
  C4 (as amended). Let \<^verbatim>\<open>range\<close> visit every key of a map once, let the zones be keyed by their
  ids, as \<^const>\<open>zones\<close> builds them, and let no zone have the empty id. Then every addition
  and every deletion whose name, with the trailing dot, has the name of some zone as a
  suffix is in the request of exactly one zone, and the name of that zone is a suffix of
  greatest length among the zones; a record whose name has no zone name as a suffix is in
  no request; every request of the returned map is stored under the id of a zone, carries
  that id, holds at least one addition or deletion, and holds its additions and deletions
  in the order of the combined request.
\<close>

theorem separateChange_longest_suffix:
  assumes perm: "\<forall>keys. mset (ord keys) = mset keys"
    and d: "distinct (map fst zs)"
    and k: "\<forall>(k, zone) \<in> set zs. Id zone = k \<and> k \<noteq> ''''"
  shows "\<exists>separated. separateChange fw ord zs change = Some separated \<and>
    distinct (map fst separated) \<and>
    (\<forall>a \<in> set (Additions change).
       (\<exists>zone \<in> snd ` set zs. HasSuffix (EnsureTrailingDot fw (RecordSet.Name a)) (Zone zone)) \<longrightarrow>
       (\<exists>zone \<in> snd ` set zs.
          HasSuffix (EnsureTrailingDot fw (RecordSet.Name a)) (Zone zone) \<and>
          (\<forall>zone' \<in> snd ` set zs.
             HasSuffix (EnsureTrailingDot fw (RecordSet.Name a)) (Zone zone') \<longrightarrow>
             length (Zone zone') \<le> length (Zone zone)) \<and>
          (\<forall>i. (\<exists>request. map_of separated i = Some request \<and> a \<in> set (Additions request)) \<longleftrightarrow>
                i = Id zone))) \<and>
    (\<forall>b \<in> set (Deletions change).
       (\<exists>zone \<in> snd ` set zs. HasSuffix (EnsureTrailingDot fw (RecordSet.Name b)) (Zone zone)) \<longrightarrow>
       (\<exists>zone \<in> snd ` set zs.
          HasSuffix (EnsureTrailingDot fw (RecordSet.Name b)) (Zone zone) \<and>
          (\<forall>zone' \<in> snd ` set zs.
             HasSuffix (EnsureTrailingDot fw (RecordSet.Name b)) (Zone zone') \<longrightarrow>
             length (Zone zone') \<le> length (Zone zone)) \<and>
          (\<forall>i. (\<exists>request. map_of separated i = Some request \<and> b \<in> set (Deletions request)) \<longleftrightarrow>
                i = Id zone))) \<and>
    (\<forall>r. \<not> (\<exists>zone \<in> snd ` set zs. HasSuffix (EnsureTrailingDot fw (RecordSet.Name r)) (Zone zone)) \<longrightarrow>
       (\<forall>i request. map_of separated i = Some request \<longrightarrow>
          r \<notin> set (Additions request) \<and> r \<notin> set (Deletions request))) \<and>
    (\<forall>i request. map_of separated i = Some request \<longrightarrow>
       DnsZoneId request = i \<and> i \<in> fst ` set zs \<and>
       (Additions request \<noteq> [] \<or> Deletions request \<noteq> []) \<and>
       Additions request = filter (\<lambda>a. a \<in> set (Additions request)) (Additions change) \<and>
       Deletions request = filter (\<lambda>b. b \<in> set (Deletions request)) (Deletions change))"
proof -
  define visited where "visited = rangeValues ord zs"
  define findZone where "findZone = (\<lambda>name. fst (FindZone
      (rangeMap ord (fold (\<lambda>zone m. AList.update (Id zone) (Zone zone) m) (rangeValues ord zs) []))
      (EnsureTrailingDot fw name)))"
  define adds where "adds = (\<lambda>i. filter (\<lambda>a. findZone (RecordSet.Name a) = i \<and> i \<noteq> '''') (Additions change))"
  define dels where "dels = (\<lambda>i. filter (\<lambda>b. findZone (RecordSet.Name b) = i \<and> i \<noteq> '''') (Deletions change))"
  let ?match = "\<lambda>r zone. HasSuffix (EnsureTrailingDot fw (RecordSet.Name r)) (Zone zone)"
  from k have k': "\<forall>(k, zone) \<in> set zs. Id zone = k" by auto
  have ids: "Id ` set visited = fst ` set zs"
    unfolding visited_def by (rule rangeValues_wf(3) [OF perm d k'])
  from separateChange_spec [of fw ord zs change] obtain separated where
    s: "separateChange fw ord zs change = Some separated"
    and ds: "distinct (map fst separated)"
    and m: "\<And>i. map_of separated i =
        (if i \<in> Id ` set visited \<and> (adds i \<noteq> [] \<or> dels i \<noteq> [])
         then Some \<lparr>DnsZoneId = i, Deletions = dels i, Additions = adds i\<rparr> else None)"
    unfolding visited_def findZone_def adds_def dels_def by blast
  have none: "findZone (RecordSet.Name r) = ''''" if "\<not> (\<exists>zone \<in> snd ` set zs. ?match r zone)" for r
    unfolding findZone_def using that by (rule findZone_wf(1) [OF perm d k])
  have some: "\<exists>zone \<in> snd ` set zs. findZone (RecordSet.Name r) = Id zone \<and> Id zone \<noteq> '''' \<and>
      ?match r zone \<and>
      (\<forall>zone' \<in> snd ` set zs. ?match r zone' \<longrightarrow> length (Zone zone') \<le> length (Zone zone))"
    if "\<exists>zone \<in> snd ` set zs. ?match r zone" for r
    unfolding findZone_def using that by (rule findZone_wf(2) [OF perm d k])
  have in_ids: "Id zone \<in> Id ` set visited" if "zone \<in> snd ` set zs" for zone
  proof -
    from that obtain i where "(i, zone) \<in> set zs" by auto
    with k' have "Id zone \<in> fst ` set zs" by force
    then show ?thesis unfolding ids .
  qed
  have req_adds: "(\<exists>request. map_of separated i = Some request \<and> a \<in> set (Additions request)) \<longleftrightarrow>
      i \<in> Id ` set visited \<and> a \<in> set (adds i)" for i a
    unfolding m by auto
  have req_dels: "(\<exists>request. map_of separated i = Some request \<and> b \<in> set (Deletions request)) \<longleftrightarrow>
      i \<in> Id ` set visited \<and> b \<in> set (dels i)" for i b
    unfolding m by auto
  have p1: "\<exists>zone \<in> snd ` set zs. ?match a zone \<and>
      (\<forall>zone' \<in> snd ` set zs. ?match a zone' \<longrightarrow> length (Zone zone') \<le> length (Zone zone)) \<and>
      (\<forall>i. (\<exists>request. map_of separated i = Some request \<and> a \<in> set (Additions request)) \<longleftrightarrow>
            i = Id zone)"
    if a: "a \<in> set (Additions change)" and ex: "\<exists>zone \<in> snd ` set zs. ?match a zone" for a
  proof -
    from some [OF ex] obtain zone where z: "zone \<in> snd ` set zs"
      "findZone (RecordSet.Name a) = Id zone" "Id zone \<noteq> ''''" "?match a zone"
      "\<forall>zone' \<in> snd ` set zs. ?match a zone' \<longrightarrow> length (Zone zone') \<le> length (Zone zone)"
      by blast
    have "(i \<in> Id ` set visited \<and> a \<in> set (adds i)) \<longleftrightarrow> i = Id zone" for i
      using a z(2,3) in_ids [OF z(1)] by (auto simp: adds_def)
    with z show ?thesis unfolding req_adds by blast
  qed
  have p2: "\<exists>zone \<in> snd ` set zs. ?match b zone \<and>
      (\<forall>zone' \<in> snd ` set zs. ?match b zone' \<longrightarrow> length (Zone zone') \<le> length (Zone zone)) \<and>
      (\<forall>i. (\<exists>request. map_of separated i = Some request \<and> b \<in> set (Deletions request)) \<longleftrightarrow>
            i = Id zone)"
    if b: "b \<in> set (Deletions change)" and ex: "\<exists>zone \<in> snd ` set zs. ?match b zone" for b
  proof -
    from some [OF ex] obtain zone where z: "zone \<in> snd ` set zs"
      "findZone (RecordSet.Name b) = Id zone" "Id zone \<noteq> ''''" "?match b zone"
      "\<forall>zone' \<in> snd ` set zs. ?match b zone' \<longrightarrow> length (Zone zone') \<le> length (Zone zone)"
      by blast
    have "(i \<in> Id ` set visited \<and> b \<in> set (dels i)) \<longleftrightarrow> i = Id zone" for i
      using b z(2,3) in_ids [OF z(1)] by (auto simp: dels_def)
    with z show ?thesis unfolding req_dels by blast
  qed
  have p3: "r \<notin> set (Additions request) \<and> r \<notin> set (Deletions request)"
    if "\<not> (\<exists>zone \<in> snd ` set zs. ?match r zone)" "map_of separated i = Some request"
    for r i request
  proof -
    from none [OF that(1)] have "r \<notin> set (adds i)" "r \<notin> set (dels i)"
      by (auto simp: adds_def dels_def)
    with that(2) show ?thesis
      unfolding m by (auto split: if_splits)
  qed
  have p4: "DnsZoneId request = i \<and> i \<in> fst ` set zs \<and>
       (Additions request \<noteq> [] \<or> Deletions request \<noteq> []) \<and>
       Additions request = filter (\<lambda>a. a \<in> set (Additions request)) (Additions change) \<and>
       Deletions request = filter (\<lambda>b. b \<in> set (Deletions request)) (Deletions change)"
    if "map_of separated i = Some request" for i request
  proof -
    from that have i: "i \<in> Id ` set visited" "adds i \<noteq> [] \<or> dels i \<noteq> []"
      and r: "request = \<lparr>DnsZoneId = i, Deletions = dels i, Additions = adds i\<rparr>"
      unfolding m by (auto split: if_splits)
    have "adds i = filter (\<lambda>a. a \<in> set (adds i)) (Additions change)"
      unfolding adds_def by (rule filter_cong) auto
    moreover have "dels i = filter (\<lambda>b. b \<in> set (dels i)) (Deletions change)"
      unfolding dels_def by (rule filter_cong) auto
    ultimately show ?thesis
      using i unfolding r ids by simp
  qed
  show ?thesis
  proof (intro exI conjI)
    show "separateChange fw ord zs change = Some separated" by (rule s)
    show "distinct (map fst separated)" by (rule ds)
    show "\<forall>a \<in> set (Additions change).
       (\<exists>zone \<in> snd ` set zs. ?match a zone) \<longrightarrow>
       (\<exists>zone \<in> snd ` set zs. ?match a zone \<and>
          (\<forall>zone' \<in> snd ` set zs. ?match a zone' \<longrightarrow> length (Zone zone') \<le> length (Zone zone)) \<and>
          (\<forall>i. (\<exists>request. map_of separated i = Some request \<and> a \<in> set (Additions request)) \<longleftrightarrow>
                i = Id zone))"
      using p1 by (intro ballI impI)
    show "\<forall>b \<in> set (Deletions change).
       (\<exists>zone \<in> snd ` set zs. ?match b zone) \<longrightarrow>
       (\<exists>zone \<in> snd ` set zs. ?match b zone \<and>
          (\<forall>zone' \<in> snd ` set zs. ?match b zone' \<longrightarrow> length (Zone zone') \<le> length (Zone zone)) \<and>
          (\<forall>i. (\<exists>request. map_of separated i = Some request \<and> b \<in> set (Deletions request)) \<longleftrightarrow>
                i = Id zone))"
      using p2 by (intro ballI impI)
    show "\<forall>r. \<not> (\<exists>zone \<in> snd ` set zs. ?match r zone) \<longrightarrow>
       (\<forall>i request. map_of separated i = Some request \<longrightarrow>
          r \<notin> set (Additions request) \<and> r \<notin> set (Deletions request))"
      using p3 by (intro allI impI)
    show "\<forall>i request. map_of separated i = Some request \<longrightarrow>
       DnsZoneId request = i \<and> i \<in> fst ` set zs \<and>
       (Additions request \<noteq> [] \<or> Deletions request \<noteq> []) \<and>
       Additions request = filter (\<lambda>a. a \<in> set (Additions request)) (Additions change) \<and>
       Deletions request = filter (\<lambda>b. b \<in> set (Deletions request)) (Deletions change)"
      using p4 by (intro allI impI)
  qed
qed

theorem separateChange_longest_suffix_witness:
  "inOrder (map fst fourZones) = map fst fourZones \<and>
   distinct (map fst fourZones) \<and>
   fourZones = [(''dns1'', exampleZone), (''dns2'', subZone), (''dns3'', orgZone), (''dns4'', comZone)] \<and>
   Id exampleZone = ''dns1'' \<and> Id subZone = ''dns2'' \<and> Id orgZone = ''dns3'' \<and> Id comZone = ''dns4'' \<and>
   Zone exampleZone = ''example.com.'' \<and> Zone subZone = ''sub.example.com.'' \<and>
   Zone orgZone = ''example.org.'' \<and> Zone comZone = ''com.'' \<and>
   fourZoneChange = \<lparr>DnsZoneId = '''', Deletions = [orgA], Additions = [conflictSub, netA]\<rparr> \<and>
   EnsureTrailingDot exampleFramework (RecordSet.Name conflictSub) = ''a.sub.example.com.'' \<and>
   HasSuffix ''a.sub.example.com.'' (Zone exampleZone) \<and>
   HasSuffix ''a.sub.example.com.'' (Zone subZone) \<and>
   HasSuffix ''a.sub.example.com.'' (Zone comZone) \<and>
   EnsureTrailingDot exampleFramework (RecordSet.Name netA) = ''www.example.net.'' \<and>
   \<not> HasSuffix ''www.example.net.'' (Zone exampleZone) \<and>
   \<not> HasSuffix ''www.example.net.'' (Zone subZone) \<and>
   \<not> HasSuffix ''www.example.net.'' (Zone orgZone) \<and>
   \<not> HasSuffix ''www.example.net.'' (Zone comZone) \<and>
   (\<exists>separated.
      separateChange exampleFramework inOrder fourZones fourZoneChange = Some separated \<and>
      distinct (map fst separated) \<and>
      (\<exists>request. map_of separated ''dns2'' = Some request \<and>
         conflictSub \<in> set (Additions request))) \<and>
   separateChange exampleFramework inOrder fourZones fourZoneChange =
     Some [(''dns2'', \<lparr>DnsZoneId = ''dns2'', Deletions = [], Additions = [conflictSub]\<rparr>),
           (''dns3'', \<lparr>DnsZoneId = ''dns3'', Deletions = [orgA], Additions = []\<rparr>)]"
proof -
  have p: "\<forall>keys. mset (inOrder keys) = mset keys"
    by (simp add: inOrder_def)
  have d: "distinct (map fst fourZones)"
    by (simp add: fourZones_def)
  have k: "\<forall>(k, zone) \<in> set fourZones. Id zone = k \<and> k \<noteq> ''''"
    by (simp add: fourZones_def exampleZone_def subZone_def orgZone_def comZone_def)
  have i: "Id exampleZone = ''dns1''" "Id subZone = ''dns2''" "Id orgZone = ''dns3''"
      "Id comZone = ''dns4''"
    by (simp_all add: exampleZone_def subZone_def orgZone_def comZone_def)
  have z: "Zone exampleZone = ''example.com.''" "Zone subZone = ''sub.example.com.''"
      "Zone orgZone = ''example.org.''" "Zone comZone = ''com.''"
    by (simp_all add: exampleZone_def subZone_def orgZone_def comZone_def)
  have c: "fourZoneChange = \<lparr>DnsZoneId = '''', Deletions = [orgA], Additions = [conflictSub, netA]\<rparr>"
    by (simp add: fourZoneChange_def)
  have n: "EnsureTrailingDot exampleFramework (RecordSet.Name conflictSub) = ''a.sub.example.com.''"
      "EnsureTrailingDot exampleFramework (RecordSet.Name netA) = ''www.example.net.''"
    by (simp_all add: conflictSub_def netA_def ex3_EnsureTrailingDot)
  have zs: "snd ` set fourZones = {exampleZone, subZone, orgZone, comZone}"
    by (auto simp: fourZones_def)
  from separateChange_longest_suffix [OF p d k, where fw = exampleFramework
      and change = fourZoneChange]
  obtain separated where
    s: "separateChange exampleFramework inOrder fourZones fourZoneChange = Some separated"
    and ds: "distinct (map fst separated)"
    and a: "\<forall>a \<in> set (Additions fourZoneChange).
       (\<exists>zone \<in> snd ` set fourZones.
          HasSuffix (EnsureTrailingDot exampleFramework (RecordSet.Name a)) (Zone zone)) \<longrightarrow>
       (\<exists>zone \<in> snd ` set fourZones.
          HasSuffix (EnsureTrailingDot exampleFramework (RecordSet.Name a)) (Zone zone) \<and>
          (\<forall>zone' \<in> snd ` set fourZones.
             HasSuffix (EnsureTrailingDot exampleFramework (RecordSet.Name a)) (Zone zone') \<longrightarrow>
             length (Zone zone') \<le> length (Zone zone)) \<and>
          (\<forall>i. (\<exists>request. map_of separated i = Some request \<and> a \<in> set (Additions request)) \<longleftrightarrow>
                i = Id zone))"
    by blast
  have m: "conflictSub \<in> set (Additions fourZoneChange)"
    by (simp add: c)
  have e: "\<exists>zone \<in> snd ` set fourZones.
      HasSuffix (EnsureTrailingDot exampleFramework (RecordSet.Name conflictSub)) (Zone zone)"
    unfolding zs n using ex4_suffixes(2) by blast
  from a [rule_format, OF m e] obtain zone where
    zm: "zone \<in> snd ` set fourZones"
    and zh: "HasSuffix (EnsureTrailingDot exampleFramework (RecordSet.Name conflictSub)) (Zone zone)"
    and zl: "\<forall>zone' \<in> snd ` set fourZones.
       HasSuffix (EnsureTrailingDot exampleFramework (RecordSet.Name conflictSub)) (Zone zone') \<longrightarrow>
       length (Zone zone') \<le> length (Zone zone)"
    and zi: "\<forall>i. (\<exists>request. map_of separated i = Some request \<and>
        conflictSub \<in> set (Additions request)) \<longleftrightarrow> i = Id zone"
    by blast
  from zl [rule_format, of subZone] ex4_suffixes(2)
  have "length (Zone subZone) \<le> length (Zone zone)"
    unfolding zs n by simp
  with zm have "zone = subZone"
    unfolding zs by (auto simp: z)
  with zi i(2) have r: "\<exists>request. map_of separated ''dns2'' = Some request \<and>
      conflictSub \<in> set (Additions request)"
    by simp
  have o: "inOrder (map fst fourZones) = map fst fourZones"
    by (simp add: inOrder_def)
  have f: "fourZones = [(''dns1'', exampleZone), (''dns2'', subZone), (''dns3'', orgZone),
      (''dns4'', comZone)]"
    by (simp add: fourZones_def)
  from s ds r have x: "\<exists>separated.
      separateChange exampleFramework inOrder fourZones fourZoneChange = Some separated \<and>
      distinct (map fst separated) \<and>
      (\<exists>request. map_of separated ''dns2'' = Some request \<and>
         conflictSub \<in> set (Additions request))"
    by blast
  from o d f i z c n ex4_suffixes x ex4_separate show ?thesis
    by blast
qed

text \<open>
  The claim C4 as stated fails: \<^const>\<open>separateChange\<close> reads the empty id as "no zone", so the
  record of a zone whose id is empty is dropped although its name matches the zone.
\<close>

theorem separateChange_drops_empty_id:
  "separateChange exampleFramework inOrder [('''', unnamedZone)]
     \<lparr>DnsZoneId = '''', Deletions = [], Additions = [exampleA]\<rparr> = Some [] \<and>
   HasSuffix (EnsureTrailingDot exampleFramework (RecordSet.Name exampleA)) (Zone unnamedZone)"
proof -
  have e1: "rangeValues inOrder [('''', unnamedZone)] = [unnamedZone]"
    by (simp add: rangeValues_def rangeMap_def inOrder_def)
  have e2: "rangeMap inOrder [('''', ''example.com.'')] = [('''', ''example.com.'')]"
    by (simp add: rangeMap_def inOrder_def)
  have e3: "FindZone [('''', ''example.com.'')] ''www.example.com.'' = ('''', ''example.com.'')"
    by (simp add: FindZone_def HasSuffix_def)
  have e4: "EnsureTrailingDot exampleFramework ''www.example.com.'' = ''www.example.com.''"
    by (simp add: exampleFramework_defs)
  show ?thesis
    unfolding separateChange_def Let_def e1
    by (simp add: e2 e3 e4 exampleA_def unnamedZone_def HasSuffix_def)
qed

section \<open>Applying changes and listing records\<close>

lemma submit_dryRun: "dryRun p \<Longrightarrow> submit p c s requests = (Ok (), s, [])"
  by (induction requests) simp_all

lemma submit_append:
  assumes "\<not> dryRun p" "submit p c s pre = (Ok (), s1, calls)"
  shows "submit p c s (pre @ rest) =
     (case submit p c s1 rest of (r, s2, calls') \<Rightarrow> (r, s2, calls @ calls'))"
  using assms(2)
proof (induction pre arbitrary: s calls)
  case Nil
  then show ?case by (simp split: prod.splits)
next
  case (Cons x pre)
  obtain res s' where u: "UpdateRecordSets c s x = (res, s')"
    by (cases "UpdateRecordSets c s x")
  obtain r' s'' calls' where t: "submit p c s' pre = (r', s'', calls')"
    by (cases "submit p c s' pre")
  from Cons.prems assms(1) u t have res: "res = Ok ()"
    by (cases res) simp_all
  with Cons.prems assms(1) u t have e: "r' = Ok ()" "s'' = s1" "calls = x # calls'"
    by simp_all
  from t e have "submit p c s' pre = (Ok (), s1, calls')" by simp
  from Cons.IH [OF this] show ?case
    using assms(1) u res e by (simp split: prod.splits)
qed

lemma submit_first_failure:
  assumes "\<not> dryRun p" "submit p c s pre = (Ok (), s1, calls)"
    and "UpdateRecordSets c s1 r = (Err e, s2)"
  shows "submit p c s (pre @ r # post) = (Err e, s2, calls @ [r])"
  unfolding submit_append [OF assms(1,2)] using assms(1,3) by simp

lemma submit_all_ok:
  assumes "\<not> dryRun p" "length states = Suc (length pre)"
    and "\<forall>i < length pre. UpdateRecordSets c (states ! i) (pre ! i) = (Ok (), states ! Suc i)"
  shows "submit p c (states ! 0) pre = (Ok (), states ! length pre, pre)"
  using assms(2,3)
proof (induction pre arbitrary: states)
  case Nil
  then show ?case by simp
next
  case (Cons x pre)
  from Cons.prems(1) obtain s0 rest where st: "states = s0 # rest"
    by (cases states) simp_all
  with Cons.prems(1) have l: "length rest = Suc (length pre)" by simp
  have "UpdateRecordSets c (rest ! i) (pre ! i) = (Ok (), rest ! Suc i)" if "i < length pre" for i
    using Cons.prems(2) [rule_format, of "Suc i"] that st by simp
  then have "\<forall>i < length pre. UpdateRecordSets c (rest ! i) (pre ! i) = (Ok (), rest ! Suc i)"
    by simp
  from Cons.IH [OF l this]
  have ih: "submit p c (rest ! 0) pre = (Ok (), rest ! length pre, pre)" .
  from Cons.prems(2) [rule_format, of 0] st
  have u: "UpdateRecordSets c s0 x = (Ok (), rest ! 0)" by simp
  show ?case
    using assms(1) st u ih by simp
qed

lemma listZones_append:
  "listZones fw c s (pre @ rest) endpoints =
     (case listZones fw c s pre endpoints of
        Ok found \<Rightarrow> listZones fw c s rest found
      | Err e \<Rightarrow> Err e
      | Panic \<Rightarrow> Panic)"
  by (induction pre arbitrary: endpoints) (simp_all split: result.splits)

lemma listZones_all_ok:
  assumes "\<forall>zone \<in> set zs. ListRecordSets c s (Id zone) = Ok (records (Id zone))"
  shows "listZones fw c s zs endpoints =
     Ok (endpoints @
         concat (map (\<lambda>zone.
           map (\<lambda>record. NewEndpointWithTTL (RecordSet.Name record) (Type record)
                           (Ttl record) (Data record))
             (filter (\<lambda>record. SupportedRecordType fw (Type record)) (records (Id zone)))) zs))"
  using assms by (induction zs arbitrary: endpoints) simp_all

lemma listZones_first_failure:
  assumes "\<forall>zone \<in> set pre. \<exists>records. ListRecordSets c s (Id zone) = Ok records"
    and "ListRecordSets c s (Id zone) = Err e"
  shows "listZones fw c s (pre @ zone # post) endpoints = Err e"
proof -
  from assms(1) have "\<exists>found. listZones fw c s pre endpoints = Ok found"
  proof (induction pre arbitrary: endpoints)
    case Nil
    then show ?case by simp
  next
    case (Cons z pre)
    from Cons.prems obtain records where r: "ListRecordSets c s (Id z) = Ok records" by auto
    from Cons.prems have "\<forall>zone \<in> set pre. \<exists>records. ListRecordSets c s (Id zone) = Ok records"
      by simp
    from Cons.IH [OF this] r show ?case by simp
  qed
  then obtain found where "listZones fw c s pre endpoints = Ok found" ..
  with assms(2) show ?thesis
    by (simp add: listZones_append)
qed

lemma zones_List_Err: "List c s (folder p) = Err e \<Longrightarrow> zones p c s = Err e"
  by (simp add: zones_def)

lemma zones_List_Ok: "List c s (folder p) = Ok dnsZones \<Longrightarrow> \<exists>zs. zones p c s = Ok zs"
  by (simp add: zones_def)

lemma separateChange_total: "\<exists>separated. separateChange fw ord zs change = Some separated"
  using separateChange_spec [of fw ord zs change] by blast


text \<open>
  C1 (as amended). In dry-run mode \<^const>\<open>ApplyChanges\<close> never calls \<^verbatim>\<open>UpdateRecordSets\<close> and
  leaves the state of the client as it was, for every input. It returns nil when the
  listing of the zones succeeds and every CNAME endpoint of the changes that matches the
  domain filter has a target.
\<close>

theorem ApplyChanges_dryRun:
  assumes "dryRun p"
  shows "snd (ApplyChanges fw ord p c s changes) = (s, []) \<and>
     ((\<forall>e \<in> set (Create changes @ UpdateOld changes @ UpdateNew changes @ Delete changes).
          domainFilter p (DNSName e) \<and> RecordType e = RecordTypeCNAME \<longrightarrow> Targets e \<noteq> []) \<and>
      (\<exists>dnsZones. List c s (folder p) = Ok dnsZones) \<longrightarrow>
      fst (ApplyChanges fw ord p c s changes) = Ok ())"
proof
  show "snd (ApplyChanges fw ord p c s changes) = (s, [])"
    using assms
    by (simp add: ApplyChanges_def submit_dryRun split: option.splits result.splits)
next
  show "(\<forall>e \<in> set (Create changes @ UpdateOld changes @ UpdateNew changes @ Delete changes).
          domainFilter p (DNSName e) \<and> RecordType e = RecordTypeCNAME \<longrightarrow> Targets e \<noteq> []) \<and>
      (\<exists>dnsZones. List c s (folder p) = Ok dnsZones) \<longrightarrow>
      fst (ApplyChanges fw ord p c s changes) = Ok ()"
  proof (intro impI, elim conjE exE)
    fix dnsZones
    assume t: "\<forall>e \<in> set (Create changes @ UpdateOld changes @ UpdateNew changes @ Delete changes).
          domainFilter p (DNSName e) \<and> RecordType e = RecordTypeCNAME \<longrightarrow> Targets e \<noteq> []"
      and l: "List c s (folder p) = Ok dnsZones"
    from t have "updateRequest fw p changes \<noteq> None"
      unfolding updateRequest_None_iff endpointToRecordSet_None_iff by auto
    then obtain request where r: "updateRequest fw p changes = Some request" by auto
    from zones_List_Ok [OF l] obtain zs where z: "zones p c s = Ok zs" ..
    from separateChange_total obtain separated where
      sep: "separateChange fw ord zs request = Some separated" ..
    from r z sep assms show "fst (ApplyChanges fw ord p c s changes) = Ok ()"
      by (simp add: ApplyChanges_def submit_dryRun)
  qed
qed


theorem ApplyChanges_dryRun_witness:
  "dryRun dryRunProvider \<and>
   Create exampleChanges @ UpdateOld exampleChanges @ UpdateNew exampleChanges @
     Delete exampleChanges = [exampleCNAME] \<and>
   Targets exampleCNAME \<noteq> [] \<and>
   List (mockClient inOrder) storedClient (folder dryRunProvider) = Ok [exampleZone] \<and>
   ApplyChanges exampleFramework inOrder dryRunProvider (mockClient inOrder) storedClient exampleChanges =
     (Ok (), storedClient, [])"
proof -
  have d: "dryRun dryRunProvider"
    by (simp add: dryRunProvider_def)
  have a: "Create exampleChanges @ UpdateOld exampleChanges @ UpdateNew exampleChanges @
     Delete exampleChanges = [exampleCNAME]"
    by (simp add: exampleChanges_def)
  have b: "Targets exampleCNAME \<noteq> []"
    by (simp add: exampleCNAME_def)
  from a b have t: "\<forall>e \<in> set (Create exampleChanges @ UpdateOld exampleChanges @
        UpdateNew exampleChanges @ Delete exampleChanges).
      domainFilter dryRunProvider (DNSName e) \<and> RecordType e = RecordTypeCNAME \<longrightarrow> Targets e \<noteq> []"
    by simp
  have l: "List (mockClient inOrder) storedClient (folder dryRunProvider) = Ok [exampleZone]"
    by (simp add: mockClient_def List_mock_def rangeValues_def rangeMap_def inOrder_def storedClient_def)
  from ApplyChanges_dryRun [OF d, where fw = exampleFramework and ord = inOrder
      and c = "mockClient inOrder" and s = storedClient and changes = exampleChanges] t l
  have "snd (ApplyChanges exampleFramework inOrder dryRunProvider (mockClient inOrder) storedClient
          exampleChanges) = (storedClient, [])"
    and "fst (ApplyChanges exampleFramework inOrder dryRunProvider (mockClient inOrder) storedClient
          exampleChanges) = Ok ()"
    by blast+
  then have "ApplyChanges exampleFramework inOrder dryRunProvider (mockClient inOrder) storedClient
          exampleChanges = (Ok (), storedClient, [])"
    by (simp add: prod_eq_iff)
  with d a b l show ?thesis by blast
qed

text \<open>
  The claim C1 as stated fails: in dry-run mode \<^const>\<open>ApplyChanges\<close> returns the error of a
  failing \<^verbatim>\<open>List\<close> call, and it panics on a CNAME endpoint without targets.
\<close>

theorem ApplyChanges_dryRun_not_nil:
  "dryRun dryRunProvider \<and>
   ApplyChanges exampleFramework inOrder dryRunProvider failingClient () exampleChanges =
     (Err ''unavailable'', (), []) \<and>
   ApplyChanges exampleFramework inOrder dryRunProvider (mockClient inOrder) storedClient
     \<lparr>Create = [emptyCNAME], UpdateOld = [], UpdateNew = [], Delete = []\<rparr> =
     (Panic, storedClient, [])"
  by (simp add: ApplyChanges_def updateRequest_def endpointToRecordSet_def zones_def
      dryRunProvider_def failingClient_def exampleChanges_def exampleCNAME_def emptyCNAME_def
      exampleFramework_defs RecordTypeCNAME_def)

text \<open>
  C5. An error of a client call is returned as it is. \<^const>\<open>Records\<close> returns the error of
  \<^verbatim>\<open>List\<close>, and the error of the first \<^verbatim>\<open>ListRecordSets\<close> call that fails. \<^const>\<open>ApplyChanges\<close>
  returns the error of \<^verbatim>\<open>List\<close> without calling \<^verbatim>\<open>UpdateRecordSets\<close>. Outside dry-run mode,
  let the requests be visited in the order \<open>pre\<close>, \<open>r\<close>, \<open>post\<close>, let the client accept every
  request of \<open>pre\<close> in turn, from the state \<open>states ! i\<close> to the state \<open>states ! Suc i\<close>, and let
  it fail on \<open>r\<close> with the error \<open>e\<close>: then \<^const>\<open>ApplyChanges\<close> returns \<open>e\<close>, the calls made are
  those for \<open>pre\<close> and for \<open>r\<close>, and no request of \<open>post\<close> is submitted.
\<close>

theorem client_errors_returned:
  "(List c s (folder p) = Err e \<longrightarrow> Records fw ord p c s = Err e) \<and>
   (\<forall>zs pre zone post.
      zones p c s = Ok zs \<and> rangeValues ord zs = pre @ zone # post \<and>
      (\<forall>z \<in> set pre. \<exists>records. ListRecordSets c s (Id z) = Ok records) \<and>
      ListRecordSets c s (Id zone) = Err e \<longrightarrow>
      Records fw ord p c s = Err e) \<and>
   (updateRequest fw p changes \<noteq> None \<and> List c s (folder p) = Err e \<longrightarrow>
      ApplyChanges fw ord p c s changes = (Err e, s, [])) \<and>
   (\<forall>request zs separated pre r post states s2.
      \<not> dryRun p \<and> updateRequest fw p changes = Some request \<and> zones p c s = Ok zs \<and>
      separateChange fw ord zs request = Some separated \<and>
      rangeValues ord separated = pre @ r # post \<and>
      length states = Suc (length pre) \<and> states ! 0 = s \<and>
      (\<forall>i < length pre.
         UpdateRecordSets c (states ! i) (pre ! i) = (Ok (), states ! Suc i)) \<and>
      UpdateRecordSets c (states ! length pre) r = (Err e, s2) \<longrightarrow>
      ApplyChanges fw ord p c s changes = (Err e, s2, pre @ [r]))"
proof (intro conjI impI allI)
  assume "List c s (folder p) = Err e"
  then show "Records fw ord p c s = Err e"
    by (simp add: Records_def zones_List_Err)
next
  fix zs pre zone post
  assume a: "zones p c s = Ok zs \<and> rangeValues ord zs = pre @ zone # post \<and>
      (\<forall>z \<in> set pre. \<exists>records. ListRecordSets c s (Id z) = Ok records) \<and>
      ListRecordSets c s (Id zone) = Err e"
  then have "\<forall>z \<in> set pre. \<exists>records. ListRecordSets c s (Id z) = Ok records"
    "ListRecordSets c s (Id zone) = Err e"
    by blast+
  then have "listZones fw c s (pre @ zone # post) [] = Err e"
    by (rule listZones_first_failure)
  with a show "Records fw ord p c s = Err e"
    by (simp add: Records_def)
next
  assume "updateRequest fw p changes \<noteq> None \<and> List c s (folder p) = Err e"
  then show "ApplyChanges fw ord p c s changes = (Err e, s, [])"
    by (auto simp: ApplyChanges_def zones_List_Err)
next
  fix request zs separated pre r post states s2
  assume a: "\<not> dryRun p \<and> updateRequest fw p changes = Some request \<and> zones p c s = Ok zs \<and>
      separateChange fw ord zs request = Some separated \<and>
      rangeValues ord separated = pre @ r # post \<and>
      length states = Suc (length pre) \<and> states ! 0 = s \<and>
      (\<forall>i < length pre.
         UpdateRecordSets c (states ! i) (pre ! i) = (Ok (), states ! Suc i)) \<and>
      UpdateRecordSets c (states ! length pre) r = (Err e, s2)"
  then have n: "\<not> dryRun p" and l: "length states = Suc (length pre)"
    and o: "\<forall>i < length pre. UpdateRecordSets c (states ! i) (pre ! i) = (Ok (), states ! Suc i)"
    and f: "UpdateRecordSets c (states ! length pre) r = (Err e, s2)"
    and s: "states ! 0 = s"
    by blast+
  from submit_all_ok [OF n l o] s
  have "submit p c s pre = (Ok (), states ! length pre, pre)" by simp
  with n have "submit p c s (pre @ r # post) = (Err e, s2, pre @ [r])"
    using f by (rule submit_first_failure)
  with a show "ApplyChanges fw ord p c s changes = (Err e, s2, pre @ [r])"
    by (simp add: ApplyChanges_def)
qed

theorem client_errors_returned_witness:
  "List failingClient () (folder liveProvider) = Err ''unavailable'' \<and>
   Records exampleFramework inOrder liveProvider failingClient () = Err ''unavailable'' \<and>
   ApplyChanges exampleFramework inOrder liveProvider failingClient () conflictingChanges =
     (Err ''unavailable'', (), []) \<and>
   zones liveProvider failingSubClient [] = Ok threeZones \<and>
   rangeValues inOrder threeZones = [exampleZone] @ subZone # [orgZone] \<and>
   ListRecordSets failingSubClient [] (Id exampleZone) = Ok [] \<and>
   ListRecordSets failingSubClient [] (Id subZone) = Err ''unavailable'' \<and>
   ListRecordSets failingSubClient [] (Id orgZone) = Ok [] \<and>
   Records exampleFramework inOrder liveProvider failingSubClient [] = Err ''unavailable'' \<and>
   \<not> dryRun liveProvider \<and>
   updateRequest exampleFramework liveProvider threeZoneChanges = Some threeZoneCombined \<and>
   separateChange exampleFramework inOrder threeZones threeZoneCombined =
     Some [(''dns1'', comRequest), (''dns2'', subRequest), (''dns3'', orgRequest)] \<and>
   rangeValues inOrder [(''dns1'', comRequest), (''dns2'', subRequest), (''dns3'', orgRequest)] =
     [comRequest] @ subRequest # [orgRequest] \<and>
   UpdateRecordSets failingSubClient [] comRequest = (Ok (), [''dns1'']) \<and>
   UpdateRecordSets failingSubClient [''dns1''] subRequest = (Err ''unavailable'', [''dns1'']) \<and>
   UpdateRecordSets failingSubClient [''dns1''] orgRequest = (Ok (), [''dns1'', ''dns3'']) \<and>
   ApplyChanges exampleFramework inOrder liveProvider failingSubClient [] threeZoneChanges =
     (Err ''unavailable'', [''dns1''], [comRequest, subRequest])"
proof -
  have l: "List failingClient () (folder liveProvider) = Err ''unavailable''"
    by (simp add: failingClient_def)
  have u: "updateRequest exampleFramework liveProvider conflictingChanges \<noteq> None"
    by (simp add: ex_updateRequest)
  have v: "rangeValues inOrder threeZones = [exampleZone] @ subZone # [orgZone]"
    by (simp add: ex3_visited)
  have r1: "ListRecordSets failingSubClient [] (Id exampleZone) = Ok []"
    by (simp add: failingSubClient_def exampleZone_def)
  have r2: "ListRecordSets failingSubClient [] (Id subZone) = Err ''unavailable''"
    by (simp add: failingSubClient_def subZone_def)
  have r3: "ListRecordSets failingSubClient [] (Id orgZone) = Ok []"
    by (simp add: failingSubClient_def orgZone_def)
  have n: "\<not> dryRun liveProvider"
    by (simp add: liveProvider_def)
  have u1: "UpdateRecordSets failingSubClient [] comRequest = (Ok (), [''dns1''])"
    by (simp add: failingSubClient_def comRequest_def)
  have u2: "UpdateRecordSets failingSubClient [''dns1''] subRequest = (Err ''unavailable'', [''dns1''])"
    by (simp add: failingSubClient_def subRequest_def)
  have u3: "UpdateRecordSets failingSubClient [''dns1''] orgRequest = (Ok (), [''dns1'', ''dns3''])"
    by (simp add: failingSubClient_def orgRequest_def)
  note t1 = client_errors_returned [where c = failingClient and s = "()" and p = liveProvider
      and e = "''unavailable''" and fw = exampleFramework and ord = inOrder
      and changes = conflictingChanges]
  note t2 = client_errors_returned [where c = failingSubClient and s = "[]" and p = liveProvider
      and e = "''unavailable''" and fw = exampleFramework and ord = inOrder
      and changes = threeZoneChanges]
  from t1 [THEN conjunct1, rule_format, OF l]
  have c1: "Records exampleFramework inOrder liveProvider failingClient () = Err ''unavailable''" .
  from t1 [THEN conjunct2, THEN conjunct2, THEN conjunct1, rule_format, OF conjI, OF u l]
  have c2: "ApplyChanges exampleFramework inOrder liveProvider failingClient ()
      conflictingChanges = (Err ''unavailable'', (), [])" .
  have h3: "zones liveProvider failingSubClient [] = Ok threeZones \<and>
      rangeValues inOrder threeZones = [exampleZone] @ subZone # [orgZone] \<and>
      (\<forall>z \<in> set [exampleZone]. \<exists>records. ListRecordSets failingSubClient [] (Id z) = Ok records) \<and>
      ListRecordSets failingSubClient [] (Id subZone) = Err ''unavailable''"
    using ex3_zones_failing v r1 r2 by simp
  from t2 [THEN conjunct2, THEN conjunct1, rule_format, OF h3]
  have c3: "Records exampleFramework inOrder liveProvider failingSubClient [] =
      Err ''unavailable''" .
  have o: "\<forall>i < length [comRequest].
      UpdateRecordSets failingSubClient ([[], [''dns1'']] ! i) ([comRequest] ! i) =
        (Ok (), [[], [''dns1'']] ! Suc i)"
    using u1 by simp
  have f: "UpdateRecordSets failingSubClient ([[], [''dns1'']] ! length [comRequest]) subRequest =
      (Err ''unavailable'', [''dns1''])"
    using u2 by simp
  have h4: "\<not> dryRun liveProvider \<and>
      updateRequest exampleFramework liveProvider threeZoneChanges = Some threeZoneCombined \<and>
      zones liveProvider failingSubClient [] = Ok threeZones \<and>
      separateChange exampleFramework inOrder threeZones threeZoneCombined =
        Some [(''dns1'', comRequest), (''dns2'', subRequest), (''dns3'', orgRequest)] \<and>
      rangeValues inOrder [(''dns1'', comRequest), (''dns2'', subRequest), (''dns3'', orgRequest)] =
        [comRequest] @ subRequest # [orgRequest] \<and>
      length [[], [''dns1'']] = Suc (length [comRequest]) \<and> [[], [''dns1'']] ! 0 = [] \<and>
      (\<forall>i < length [comRequest].
         UpdateRecordSets failingSubClient ([[], [''dns1'']] ! i) ([comRequest] ! i) =
           (Ok (), [[], [''dns1'']] ! Suc i)) \<and>
      UpdateRecordSets failingSubClient ([[], [''dns1'']] ! length [comRequest]) subRequest =
        (Err ''unavailable'', [''dns1''])"
    using n ex3_updateRequest ex3_zones_failing ex3_separate ex3_requests o f by simp
  from t2 [THEN conjunct2, THEN conjunct2, THEN conjunct2, rule_format, OF h4]
  have c4: "ApplyChanges exampleFramework inOrder liveProvider failingSubClient [] threeZoneChanges =
      (Err ''unavailable'', [''dns1''], [comRequest, subRequest])"
    by simp
  from l c1 c2 ex3_zones_failing v r1 r2 r3 c3 n ex3_updateRequest ex3_separate ex3_requests
    u1 u2 u3 c4
  show ?thesis by blast
qed

section \<open>Reading the records\<close>

lemma ex_mixed_list:
  "ListRecordSets (mockClient inOrder) mixedClient ''dns1'' = Ok [exampleA, invalidTypeRecordSet]"
  by (simp add: mockClient_def ListRecordSets_mock_def mixedClient_def rangeValues_def
      rangeMap_def inOrder_def List.map_filter_def)

lemma ex_mixed_zones:
  "zones liveProvider (mockClient inOrder) mixedClient = Ok [(''dns1'', exampleZone)]"
  by (simp add: zones_def mockClient_def List_mock_def rangeValues_def rangeMap_def inOrder_def
      mixedClient_def exampleZone_def liveProvider_def getZoneType_def)

lemma ex_supported:
  "SupportedRecordType exampleFramework (Type exampleA)"
  "\<not> SupportedRecordType exampleFramework (Type invalidTypeRecordSet)"
  by (simp_all add: exampleFramework_def exampleA_def invalidTypeRecordSet_def)

lemma ex_trimmed:
  "TrimSuffix ''www.example.com.'' ''.'' = ''www.example.com''"
  "TrimSuffix ''192.0.2.1'' ''.'' = ''192.0.2.1''"
  "TrimSuffix ''192.0.2.2'' ''.'' = ''192.0.2.2''"
  by (simp_all add: TrimSuffix_def HasSuffix_def)

text \<open>
  C6 (as amended). Let \<^verbatim>\<open>range\<close> visit every key of a map once. When the listing of the zones
  and the listing of the record sets of every filtered zone succeed, \<^const>\<open>Records\<close> visits
  every filtered zone once and returns, zone after zone, one endpoint for every listed
  record set whose type the framework supports, and none for the other record sets. The
  record type and the TTL of the endpoint are those of the record set; its DNS name and its
  targets are the name and the data of the record set, each without its trailing dot.
\<close>

theorem Records_endpoints:
  assumes perm: "\<forall>keys. mset (ord keys) = mset keys"
    and z: "zones p c s = Ok zs"
    and l: "\<forall>(i, zone) \<in> set zs. ListRecordSets c s (Id zone) = Ok (records (Id zone))"
  shows "\<exists>visited. mset visited = mset (map snd zs) \<and>
      Records fw ord p c s =
        Ok (concat (map (\<lambda>zone.
              map (\<lambda>record. \<lparr>DNSName = TrimSuffix (RecordSet.Name record) ''.'',
                              Targets = map (\<lambda>target. TrimSuffix target ''.'') (Data record),
                              RecordType = Type record, RecordTTL = Ttl record\<rparr>)
                (filter (\<lambda>record. SupportedRecordType fw (Type record)) (records (Id zone))))
            visited))"
proof -
  let ?visited = "rangeValues ord zs"
  from zones_keyed_by_Id [OF z] have d: "distinct (map fst zs)" by simp
  from perm have "mset (ord (map fst zs)) = mset (map fst zs)" by simp
  with d have m: "mset (rangeMap ord zs) = mset zs" by (rule rangeMap_perm)
  then have v: "mset ?visited = mset (map snd zs)"
    unfolding rangeValues_def by (metis mset_map)
  then have "set ?visited = snd ` set zs"
    by (metis mset_eq_setD set_map)
  with l have "\<forall>zone \<in> set ?visited. ListRecordSets c s (Id zone) = Ok (records (Id zone))"
    by auto
  from listZones_all_ok [OF this, of fw "[]"] z
  have r: "Records fw ord p c s =
        Ok (concat (map (\<lambda>zone.
              map (\<lambda>record. \<lparr>DNSName = TrimSuffix (RecordSet.Name record) ''.'',
                              Targets = map (\<lambda>target. TrimSuffix target ''.'') (Data record),
                              RecordType = Type record, RecordTTL = Ttl record\<rparr>)
                (filter (\<lambda>record. SupportedRecordType fw (Type record)) (records (Id zone))))
            ?visited))"
    by (simp add: Records_def NewEndpointWithTTL_def)
  with v show ?thesis by blast
qed

theorem Records_endpoints_witness:
  "inOrder [''dns1''] = [''dns1''] \<and>
   zones liveProvider (mockClient inOrder) mixedClient = Ok [(''dns1'', exampleZone)] \<and>
   ListRecordSets (mockClient inOrder) mixedClient (Id exampleZone) =
     Ok [exampleA, invalidTypeRecordSet] \<and>
   SupportedRecordType exampleFramework (Type exampleA) \<and>
   \<not> SupportedRecordType exampleFramework (Type invalidTypeRecordSet) \<and>
   Records exampleFramework inOrder liveProvider (mockClient inOrder) mixedClient =
     Ok [\<lparr>DNSName = ''www.example.com'', Targets = [''192.0.2.1'', ''192.0.2.2''],
          RecordType = ''A'', RecordTTL = 300\<rparr>]"
proof -
  have p: "\<forall>keys. mset (inOrder keys) = mset keys"
    by (simp add: inOrder_def)
  have i: "Id exampleZone = ''dns1''"
    by (simp add: exampleZone_def)
  have a: "ListRecordSets (mockClient inOrder) mixedClient (Id exampleZone) =
      Ok [exampleA, invalidTypeRecordSet]"
    unfolding i by (rule ex_mixed_list)
  then have l: "\<forall>(i, zone) \<in> set [(''dns1'', exampleZone)].
      ListRecordSets (mockClient inOrder) mixedClient (Id zone) =
        Ok ((\<lambda>i. [exampleA, invalidTypeRecordSet]) (Id zone))"
    by simp
  from Records_endpoints [OF p ex_mixed_zones l, where fw = exampleFramework]
  obtain visited where v: "mset visited = mset (map snd [(''dns1'', exampleZone)])"
    and r: "Records exampleFramework inOrder liveProvider (mockClient inOrder) mixedClient =
        Ok (concat (map (\<lambda>zone.
              map (\<lambda>record. \<lparr>DNSName = TrimSuffix (RecordSet.Name record) ''.'',
                              Targets = map (\<lambda>target. TrimSuffix target ''.'') (Data record),
                              RecordType = Type record, RecordTTL = Ttl record\<rparr>)
                (filter (\<lambda>record. SupportedRecordType exampleFramework (Type record))
                   [exampleA, invalidTypeRecordSet]))
            visited))"
    by blast
  from v have "visited = [exampleZone]"
    by (simp add: mset_single_iff_right)
  with r ex_supported
  have "Records exampleFramework inOrder liveProvider (mockClient inOrder) mixedClient =
     Ok [\<lparr>DNSName = TrimSuffix (RecordSet.Name exampleA) ''.'',
          Targets = map (\<lambda>target. TrimSuffix target ''.'') (Data exampleA),
          RecordType = Type exampleA, RecordTTL = Ttl exampleA\<rparr>]"
    by simp
  then have "Records exampleFramework inOrder liveProvider (mockClient inOrder) mixedClient =
     Ok [\<lparr>DNSName = ''www.example.com'', Targets = [''192.0.2.1'', ''192.0.2.2''],
          RecordType = ''A'', RecordTTL = 300\<rparr>]"
    by (simp add: exampleA_def ex_trimmed)
  with ex_mixed_zones a ex_supported show ?thesis
    by (simp add: inOrder_def)
qed

text \<open>
  The claim C6 as stated fails twice on a zone that holds the record set \<^const>\<open>exampleA\<close> and a
  record set of an unsupported type: the second one gives no endpoint, and the DNS name of
  the endpoint of the first one is not the name of the record set, which ends with a dot.
\<close>

theorem Records_skips_and_trims:
  "ListRecordSets (mockClient inOrder) mixedClient ''dns1'' = Ok [exampleA, invalidTypeRecordSet] \<and>
   zones liveProvider (mockClient inOrder) mixedClient = Ok [(''dns1'', exampleZone)] \<and>
   RecordSet.Name exampleA = ''www.example.com.'' \<and>
   Records exampleFramework inOrder liveProvider (mockClient inOrder) mixedClient =
     Ok [\<lparr>DNSName = ''www.example.com'', Targets = [''192.0.2.1'', ''192.0.2.2''],
          RecordType = ''A'', RecordTTL = 300\<rparr>]"
proof -
  have c: "rangeValues inOrder [(''dns1'', exampleZone)] = [exampleZone]"
    by (simp add: rangeValues_def rangeMap_def inOrder_def)
  have i: "Id exampleZone = ''dns1''"
    by (simp add: exampleZone_def)
  have "Records exampleFramework inOrder liveProvider (mockClient inOrder) mixedClient =
     Ok [\<lparr>DNSName = ''www.example.com'', Targets = [''192.0.2.1'', ''192.0.2.2''],
          RecordType = ''A'', RecordTTL = 300\<rparr>]"
    unfolding Records_def ex_mixed_zones
    using ex_supported
    by (simp add: c i ex_mixed_list NewEndpointWithTTL_def exampleA_def ex_trimmed)
  with ex_mixed_list ex_mixed_zones show ?thesis
    by (simp add: exampleA_def)
qed

section \<open>Conflicts in the mock client\<close>

lemma recordSetExists_iff:
  "recordSetExists c zoneID recordSet \<longleftrightarrow> storedRecordSet c zoneID recordSet \<noteq> None"
  by (simp add: recordSetExists_def storedRecordSet_def split: option.splits)

lemma find_Some_ex: "\<exists>x \<in> set xs. P x \<Longrightarrow> \<exists>y. find P xs = Some y"
  by (cases "find P xs") (auto simp: find_None_iff)

lemma deleteRecords_conflict:
  assumes "d \<in> set deletions" "storedRecordSet c zoneID d = Some stored"
    and "\<not> equalRecordSets d stored"
  shows "\<exists>e. deleteRecords c zoneID deletions = (Err e, c)"
proof -
  let ?P = "\<lambda>recordSet. \<not> recordSetExists c zoneID recordSet \<or>
      (case storedRecordSet c zoneID recordSet of None \<Rightarrow> True
       | Some stored \<Rightarrow> \<not> equalRecordSets recordSet stored)"
  from assms have "\<exists>x \<in> set deletions. ?P x" by (intro bexI [of _ d]) simp_all
  then obtain y where "find ?P deletions = Some y" by (rule find_Some_ex [THEN exE])
  then show ?thesis by (simp add: deleteRecords_def)
qed

lemma addRecords_conflict:
  assumes "a \<in> set additions" "storedRecordSet c zoneID a = Some stored"
    and "\<not> equalRecordSets a stored"
  shows "\<exists>e. addRecords c zoneID additions = (Err e, c)"
proof -
  let ?P = "\<lambda>recordSet. recordSetExists c zoneID recordSet \<and>
      (case storedRecordSet c zoneID recordSet of None \<Rightarrow> False
       | Some stored \<Rightarrow> \<not> equalRecordSets recordSet stored)"
  from assms have "\<exists>x \<in> set additions. ?P x"
    by (intro bexI [of _ a]) (simp_all add: recordSetExists_iff)
  then obtain y where "find ?P additions = Some y" by (rule find_Some_ex [THEN exE])
  then show ?thesis by (simp add: addRecords_def)
qed

lemma storeAdditions_keeps:
  assumes "map_of (recordSets c) zoneID = Some zoneRecords" "map_of zoneRecords k = Some stored"
  shows "\<exists>zoneRecords'. map_of (recordSets (snd (storeAdditions c zoneID additions))) zoneID =
           Some zoneRecords' \<and> map_of zoneRecords' k = Some stored"
  using assms
proof (induction additions arbitrary: c zoneRecords)
  case Nil
  then show ?case by simp
next
  case (Cons r rest)
  show ?case
  proof (cases "recordSetExists c zoneID r")
    case True
    with Cons.IH [OF Cons.prems] show ?thesis by simp
  next
    case False
    with Cons.prems(1) have n: "map_of zoneRecords (getRecordSetKey r) = None"
      by (simp add: recordSetExists_def)
    let ?records = "AList.update (getRecordSetKey r) r zoneRecords"
    let ?c = "c\<lparr>recordSets := AList.update zoneID ?records (recordSets c)\<rparr>"
    from n Cons.prems(2) have "k \<noteq> getRecordSetKey r" by auto
    then have a: "map_of ?records k = Some stored"
      using Cons.prems(2) by (simp add: update_conv')
    have b: "map_of (recordSets ?c) zoneID = Some ?records"
      by (simp add: update_conv')
    from Cons.IH [OF b a] False Cons.prems(1) show ?thesis by simp
  qed
qed

lemma storeAdditions_Ok:
  "map_of (recordSets c) zoneID \<noteq> None \<Longrightarrow> fst (storeAdditions c zoneID additions) = Ok ()"
proof (induction additions arbitrary: c)
  case Nil
  then show ?case by simp
next
  case (Cons r rest)
  from Cons.prems obtain zoneRecords where z: "map_of (recordSets c) zoneID = Some zoneRecords"
    by auto
  let ?c = "c\<lparr>recordSets := AList.update zoneID
      (AList.update (getRecordSetKey r) r zoneRecords) (recordSets c)\<rparr>"
  have "map_of (recordSets ?c) zoneID \<noteq> None" by (simp add: update_conv')
  from Cons.IH [OF this] Cons.IH [OF Cons.prems] z show ?case by simp
qed

lemma addRecords_keeps:
  assumes "storedRecordSet c zoneID a = Some stored"
  shows "storedRecordSet (snd (addRecords c zoneID additions)) zoneID a = Some stored"
proof -
  from assms obtain zoneRecords where
    z: "map_of (recordSets c) zoneID = Some zoneRecords"
      "map_of zoneRecords (getRecordSetKey a) = Some stored"
    by (auto simp: storedRecordSet_def split: option.splits)
  from storeAdditions_keeps [OF z, of additions] obtain zoneRecords' where
    "map_of (recordSets (snd (storeAdditions c zoneID additions))) zoneID = Some zoneRecords'"
    "map_of zoneRecords' (getRecordSetKey a) = Some stored"
    by blast
  then have "storedRecordSet (snd (storeAdditions c zoneID additions)) zoneID a = Some stored"
    by (simp add: storedRecordSet_def)
  with assms show ?thesis
    by (simp add: addRecords_def split: option.splits)
qed

lemma addRecords_identical:
  assumes "storedRecordSet c zoneID a = Some stored" "equalRecordSets a stored"
  shows "addRecords c zoneID [a] = (Ok (), c)"
  using assms by (simp add: addRecords_def recordSetExists_iff)

lemma addRecords_no_conflict:
  assumes "map_of (recordSets c) zoneID \<noteq> None"
    and "\<forall>a \<in> set additions. \<forall>stored. storedRecordSet c zoneID a = Some stored \<longrightarrow> equalRecordSets a stored"
  shows "fst (addRecords c zoneID additions) = Ok ()"
proof -
  let ?P = "\<lambda>recordSet. recordSetExists c zoneID recordSet \<and>
      (case storedRecordSet c zoneID recordSet of None \<Rightarrow> False
       | Some stored \<Rightarrow> \<not> equalRecordSets recordSet stored)"
  from assms(2) have "\<not> (\<exists>x \<in> set additions. ?P x)"
    by (auto split: option.splits)
  then have "find ?P additions = None" by (simp add: find_None_iff)
  with storeAdditions_Ok [OF assms(1)] show ?thesis
    by (simp add: addRecords_def)
qed

lemma ex_stored:
  "storedRecordSet storedClient ''dns1'' conflictingRecordSet = Some exampleA"
  "storedRecordSet storedClient ''dns1'' reorderedA = Some exampleA"
  by (simp_all add: storedRecordSet_def storedClient_def getRecordSetKey_def
      conflictingRecordSet_def reorderedA_def)

lemma ex_differs:
  "\<not> equalRecordSets conflictingRecordSet exampleA" "equalRecordSets reorderedA exampleA"
  by (simp_all add: equalRecordSets_def equalRecordSetsData_def conflictingRecordSet_def
      reorderedA_def exampleA_def)

lemma ex3_update_com:
  "UpdateRecordSets_mock threeZoneClient comRequest = (Ok (), threeZoneAfterCom)"
  by (simp add: UpdateRecordSets_mock_def deleteRecords_def addRecords_def
      recordSetExists_def storedRecordSet_def getRecordSetKey_def equalRecordSets_def
      equalRecordSetsData_def threeZoneClient_def threeZoneAfterCom_def comRequest_def
      exampleA_def)

lemma ex3_delete_sub:
  "deleteRecords threeZoneAfterCom ''dns2'' [oldSub] = (Ok (), threeZoneAfterDelete)"
  by (simp add: deleteRecords_def recordSetExists_def storedRecordSet_def getRecordSetKey_def
      equalRecordSets_def equalRecordSetsData_def threeZoneAfterCom_def threeZoneAfterDelete_def
      oldSub_def AList.delete_eq)

lemma ex3_stored_sub:
  "storedRecordSet threeZoneAfterDelete ''dns2'' conflictSub = Some storedSub"
  by (simp add: storedRecordSet_def getRecordSetKey_def threeZoneAfterDelete_def conflictSub_def)

lemma ex3_update_sub:
  "UpdateRecordSets_mock threeZoneAfterCom subRequest =
     (Err (RecordSetAlreadyExists (RecordSet.Name conflictSub) (Type conflictSub) ''dns2''),
      threeZoneAfterDelete)"
proof -
  have n: "\<not> equalRecordSets conflictSub storedSub"
    by (simp add: equalRecordSets_def equalRecordSetsData_def conflictSub_def storedSub_def)
  have "addRecords threeZoneAfterDelete ''dns2'' [conflictSub] =
      (Err (RecordSetAlreadyExists (RecordSet.Name conflictSub) (Type conflictSub) ''dns2''),
       threeZoneAfterDelete)"
    using n by (simp add: addRecords_def recordSetExists_iff ex3_stored_sub)
  then show ?thesis
    by (simp add: UpdateRecordSets_mock_def subRequest_def ex3_delete_sub)
qed

lemma differing_not_equal:
  assumes "Ttl d \<noteq> Ttl stored \<or> length (Data d) \<noteq> length (Data stored) \<or>
      \<not> set (Data d) \<subseteq> set (Data stored)"
  shows "\<not> equalRecordSets d stored"
  using assms by (auto simp: equalRecordSets_def equalRecordSetsData_iff)

lemma identical_equal:
  assumes "RecordSet.Name a = RecordSet.Name stored" "Type a = Type stored" "Ttl a = Ttl stored"
    and "mset (Data a) = mset (Data stored)"
  shows "equalRecordSets a stored"
proof -
  from assms(4) have "length (Data a) = length (Data stored)" "set (Data a) = set (Data stored)"
    by (rule mset_eq_length, rule mset_eq_setD)
  with assms(1-3) show ?thesis
    by (simp add: equalRecordSets_def equalRecordSetsData_iff)
qed

text \<open>
  C9 (as amended). In the mock client, a deletion whose key is stored in the zone with a
  record set that differs from it in TTL or in data (another number of values, or a value
  that the stored record set lacks) makes \<^verbatim>\<open>UpdateRecordSets\<close> return an error and leave the
  store as it was; so does, after the deletions of the request have been applied, an
  addition whose key is then stored with a record set that differs in this way. Outside
  dry-run mode, when the mock client accepts the requests \<open>pre\<close> that are visited first, one
  after the other from the state \<open>states ! i\<close> to the state \<open>states ! Suc i\<close>, and returns an
  error for the next request \<open>r\<close>, \<^const>\<open>ApplyChanges\<close> returns that error and makes no further
  call. An addition whose key is stored with a record set of the same name, type, TTL and
  data values is accepted without error and the stored record set stays; additions without
  conflict to an existing zone give no error.
\<close>

theorem conflicting_records_rejected:
  "(\<forall>d stored.
      d \<in> set (Deletions request) \<and> storedRecordSet c (DnsZoneId request) d = Some stored \<and>
      (Ttl d \<noteq> Ttl stored \<or> length (Data d) \<noteq> length (Data stored) \<or>
       \<not> set (Data d) \<subseteq> set (Data stored)) \<longrightarrow>
      (\<exists>e. UpdateRecordSets_mock c request = (Err e, c))) \<and>
   (\<forall>c' a stored.
      deleteRecords c (DnsZoneId request) (Deletions request) = (Ok (), c') \<and>
      a \<in> set (Additions request) \<and> storedRecordSet c' (DnsZoneId request) a = Some stored \<and>
      (Ttl a \<noteq> Ttl stored \<or> length (Data a) \<noteq> length (Data stored) \<or>
       \<not> set (Data a) \<subseteq> set (Data stored)) \<longrightarrow>
      (\<exists>e. UpdateRecordSets_mock c request = (Err e, c'))) \<and>
   (\<forall>fw ord p changes combined zs separated pre r post states c2 e.
      \<not> dryRun p \<and> updateRequest fw p changes = Some combined \<and>
      zones p (mockClient ord) c = Ok zs \<and> separateChange fw ord zs combined = Some separated \<and>
      rangeValues ord separated = pre @ r # post \<and>
      length states = Suc (length pre) \<and> states ! 0 = c \<and>
      (\<forall>i < length pre. UpdateRecordSets_mock (states ! i) (pre ! i) = (Ok (), states ! Suc i)) \<and>
      UpdateRecordSets_mock (states ! length pre) r = (Err e, c2) \<longrightarrow>
      ApplyChanges fw ord p (mockClient ord) c changes = (Err e, c2, pre @ [r])) \<and>
   (\<forall>zoneID additions a stored.
      a \<in> set additions \<and> storedRecordSet c zoneID a = Some stored \<and>
      RecordSet.Name a = RecordSet.Name stored \<and> Type a = Type stored \<and> Ttl a = Ttl stored \<and>
      mset (Data a) = mset (Data stored) \<longrightarrow>
      addRecords c zoneID [a] = (Ok (), c) \<and>
      storedRecordSet (snd (addRecords c zoneID additions)) zoneID a = Some stored) \<and>
   (\<forall>zoneID additions.
      map_of (recordSets c) zoneID \<noteq> None \<and>
      (\<forall>a \<in> set additions. \<forall>stored.
         storedRecordSet c zoneID a = Some stored \<longrightarrow>
         RecordSet.Name a = RecordSet.Name stored \<and> Type a = Type stored \<and>
         Ttl a = Ttl stored \<and> mset (Data a) = mset (Data stored)) \<longrightarrow>
      fst (addRecords c zoneID additions) = Ok ())"
proof (intro conjI allI impI)
  fix d stored
  assume h: "d \<in> set (Deletions request) \<and> storedRecordSet c (DnsZoneId request) d = Some stored \<and>
      (Ttl d \<noteq> Ttl stored \<or> length (Data d) \<noteq> length (Data stored) \<or>
       \<not> set (Data d) \<subseteq> set (Data stored))"
  then have "\<not> equalRecordSets d stored"
    by (intro differing_not_equal) simp
  with h have "\<exists>e. deleteRecords c (DnsZoneId request) (Deletions request) = (Err e, c)"
    by (intro deleteRecords_conflict [of d _ _ _ stored]) simp_all
  then show "\<exists>e. UpdateRecordSets_mock c request = (Err e, c)"
    by (auto simp: UpdateRecordSets_mock_def)
next
  fix c' a stored
  assume h: "deleteRecords c (DnsZoneId request) (Deletions request) = (Ok (), c') \<and>
      a \<in> set (Additions request) \<and> storedRecordSet c' (DnsZoneId request) a = Some stored \<and>
      (Ttl a \<noteq> Ttl stored \<or> length (Data a) \<noteq> length (Data stored) \<or>
       \<not> set (Data a) \<subseteq> set (Data stored))"
  then have "\<not> equalRecordSets a stored"
    by (intro differing_not_equal) simp
  with h have "\<exists>e. addRecords c' (DnsZoneId request) (Additions request) = (Err e, c')"
    by (intro addRecords_conflict [of a _ _ _ stored]) simp_all
  with h show "\<exists>e. UpdateRecordSets_mock c request = (Err e, c')"
    by (auto simp: UpdateRecordSets_mock_def)
next
  fix fw ord p changes combined zs separated pre r post states c2 e
  assume h: "\<not> dryRun p \<and> updateRequest fw p changes = Some combined \<and>
      zones p (mockClient ord) c = Ok zs \<and> separateChange fw ord zs combined = Some separated \<and>
      rangeValues ord separated = pre @ r # post \<and>
      length states = Suc (length pre) \<and> states ! 0 = c \<and>
      (\<forall>i < length pre. UpdateRecordSets_mock (states ! i) (pre ! i) = (Ok (), states ! Suc i)) \<and>
      UpdateRecordSets_mock (states ! length pre) r = (Err e, c2)"
  then have n: "\<not> dryRun p" and l: "length states = Suc (length pre)" and s: "states ! 0 = c"
    and o: "\<forall>i < length pre.
      UpdateRecordSets (mockClient ord) (states ! i) (pre ! i) = (Ok (), states ! Suc i)"
    and f: "UpdateRecordSets (mockClient ord) (states ! length pre) r = (Err e, c2)"
    by (simp_all add: mockClient_def)
  from submit_all_ok [OF n l o] s
  have "submit p (mockClient ord) c pre = (Ok (), states ! length pre, pre)" by simp
  with n have "submit p (mockClient ord) c (pre @ r # post) = (Err e, c2, pre @ [r])"
    using f by (rule submit_first_failure)
  with h show "ApplyChanges fw ord p (mockClient ord) c changes = (Err e, c2, pre @ [r])"
    by (simp add: ApplyChanges_def)
next
  fix zoneID additions a stored
  assume h: "a \<in> set additions \<and> storedRecordSet c zoneID a = Some stored \<and>
      RecordSet.Name a = RecordSet.Name stored \<and> Type a = Type stored \<and> Ttl a = Ttl stored \<and>
      mset (Data a) = mset (Data stored)"
  then have "equalRecordSets a stored"
    by (intro identical_equal) simp_all
  with h show "addRecords c zoneID [a] = (Ok (), c)"
    by (intro addRecords_identical [of _ _ _ stored]) simp_all
  from h show "storedRecordSet (snd (addRecords c zoneID additions)) zoneID a = Some stored"
    by (intro addRecords_keeps) simp
next
  fix zoneID additions
  assume h: "map_of (recordSets c) zoneID \<noteq> None \<and>
      (\<forall>a \<in> set additions. \<forall>stored.
         storedRecordSet c zoneID a = Some stored \<longrightarrow>
         RecordSet.Name a = RecordSet.Name stored \<and> Type a = Type stored \<and>
         Ttl a = Ttl stored \<and> mset (Data a) = mset (Data stored))"
  then have "\<forall>a \<in> set additions. \<forall>stored.
      storedRecordSet c zoneID a = Some stored \<longrightarrow> equalRecordSets a stored"
    by (intro ballI allI impI identical_equal) blast+
  with h show "fst (addRecords c zoneID additions) = Ok ()"
    by (intro addRecords_no_conflict) simp_all
qed

theorem conflicting_records_rejected_witness:
  "storedRecordSet storedClient ''dns1'' conflictingRecordSet = Some exampleA \<and>
   Data conflictingRecordSet = [''192.0.2.9''] \<and>
   Data exampleA = [''192.0.2.1'', ''192.0.2.2''] \<and>
   (\<exists>e. UpdateRecordSets_mock storedClient
      \<lparr>DnsZoneId = ''dns1'', Deletions = [conflictingRecordSet], Additions = [exampleTXT]\<rparr> =
      (Err e, storedClient)) \<and>
   subRequest = \<lparr>DnsZoneId = ''dns2'', Deletions = [oldSub], Additions = [conflictSub]\<rparr> \<and>
   deleteRecords threeZoneAfterCom ''dns2'' [oldSub] = (Ok (), threeZoneAfterDelete) \<and>
   storedRecordSet threeZoneAfterDelete ''dns2'' conflictSub = Some storedSub \<and>
   Data conflictSub = [''192.0.2.9''] \<and> Data storedSub = [''192.0.2.1''] \<and>
   (\<exists>e. UpdateRecordSets_mock threeZoneAfterCom subRequest = (Err e, threeZoneAfterDelete)) \<and>
   \<not> dryRun liveProvider \<and>
   updateRequest exampleFramework liveProvider threeZoneChanges = Some threeZoneCombined \<and>
   zones liveProvider (mockClient inOrder) threeZoneClient = Ok threeZones \<and>
   separateChange exampleFramework inOrder threeZones threeZoneCombined =
     Some [(''dns1'', comRequest), (''dns2'', subRequest), (''dns3'', orgRequest)] \<and>
   rangeValues inOrder [(''dns1'', comRequest), (''dns2'', subRequest), (''dns3'', orgRequest)] =
     [comRequest] @ subRequest # [orgRequest] \<and>
   UpdateRecordSets_mock threeZoneClient comRequest = (Ok (), threeZoneAfterCom) \<and>
   UpdateRecordSets_mock threeZoneAfterCom subRequest =
     (Err (RecordSetAlreadyExists ''a.sub.example.com.'' ''A'' ''dns2''), threeZoneAfterDelete) \<and>
   ApplyChanges exampleFramework inOrder liveProvider (mockClient inOrder) threeZoneClient
     threeZoneChanges =
     (Err (RecordSetAlreadyExists ''a.sub.example.com.'' ''A'' ''dns2''), threeZoneAfterDelete,
      [comRequest, subRequest]) \<and>
   storedRecordSet storedClient ''dns1'' reorderedA = Some exampleA \<and>
   Data reorderedA = [''192.0.2.2'', ''192.0.2.1''] \<and>
   addRecords storedClient ''dns1'' [reorderedA] = (Ok (), storedClient) \<and>
   storedRecordSet (snd (addRecords storedClient ''dns1'' [exampleTXT, reorderedA])) ''dns1''
     reorderedA = Some exampleA \<and>
   fst (addRecords storedClient ''dns1'' [exampleTXT, reorderedA]) = Ok ()"
proof -
  note t = conflicting_records_rejected [where c = storedClient]
  have dc: "Data conflictingRecordSet = [''192.0.2.9'']"
    by (simp add: conflictingRecordSet_def)
  have da: "Data exampleA = [''192.0.2.1'', ''192.0.2.2'']"
    by (simp add: exampleA_def)
  have dr: "Data reorderedA = [''192.0.2.2'', ''192.0.2.1'']"
    by (simp add: reorderedA_def)
  have ds: "Data conflictSub = [''192.0.2.9'']" "Data storedSub = [''192.0.2.1'']"
    by (simp_all add: conflictSub_def storedSub_def)
  have h1: "conflictingRecordSet \<in> set (Deletions
        \<lparr>DnsZoneId = ''dns1'', Deletions = [conflictingRecordSet], Additions = [exampleTXT]\<rparr>) \<and>
      storedRecordSet storedClient
        (DnsZoneId \<lparr>DnsZoneId = ''dns1'', Deletions = [conflictingRecordSet], Additions = [exampleTXT]\<rparr>)
        conflictingRecordSet = Some exampleA \<and>
      (Ttl conflictingRecordSet \<noteq> Ttl exampleA \<or>
       length (Data conflictingRecordSet) \<noteq> length (Data exampleA) \<or>
       \<not> set (Data conflictingRecordSet) \<subseteq> set (Data exampleA))"
    using ex_stored(1) by (simp add: dc da)
  from t [where request = "\<lparr>DnsZoneId = ''dns1'', Deletions = [conflictingRecordSet],
        Additions = [exampleTXT]\<rparr>",
      THEN conjunct1, rule_format, OF h1]
  have a: "\<exists>e. UpdateRecordSets_mock storedClient
      \<lparr>DnsZoneId = ''dns1'', Deletions = [conflictingRecordSet], Additions = [exampleTXT]\<rparr> =
      (Err e, storedClient)" .
  have sr: "subRequest = \<lparr>DnsZoneId = ''dns2'', Deletions = [oldSub], Additions = [conflictSub]\<rparr>"
    by (simp add: subRequest_def)
  have h2: "deleteRecords threeZoneAfterCom (DnsZoneId subRequest) (Deletions subRequest) =
        (Ok (), threeZoneAfterDelete) \<and>
      conflictSub \<in> set (Additions subRequest) \<and>
      storedRecordSet threeZoneAfterDelete (DnsZoneId subRequest) conflictSub = Some storedSub \<and>
      (Ttl conflictSub \<noteq> Ttl storedSub \<or>
       length (Data conflictSub) \<noteq> length (Data storedSub) \<or>
       \<not> set (Data conflictSub) \<subseteq> set (Data storedSub))"
    using ex3_delete_sub ex3_stored_sub by (simp add: sr ds)
  from conflicting_records_rejected [where c = threeZoneAfterCom and request = subRequest,
      THEN conjunct2, THEN conjunct1, rule_format, OF h2]
  have b: "\<exists>e. UpdateRecordSets_mock threeZoneAfterCom subRequest = (Err e, threeZoneAfterDelete)" .
  have n: "\<not> dryRun liveProvider"
    by (simp add: liveProvider_def)
  have us: "UpdateRecordSets_mock threeZoneAfterCom subRequest =
     (Err (RecordSetAlreadyExists ''a.sub.example.com.'' ''A'' ''dns2''), threeZoneAfterDelete)"
    using ex3_update_sub by (simp add: conflictSub_def)
  have o: "\<forall>i < length [comRequest].
      UpdateRecordSets_mock ([threeZoneClient, threeZoneAfterCom] ! i) ([comRequest] ! i) =
        (Ok (), [threeZoneClient, threeZoneAfterCom] ! Suc i)"
    using ex3_update_com by simp
  have f: "UpdateRecordSets_mock ([threeZoneClient, threeZoneAfterCom] ! length [comRequest])
      subRequest =
      (Err (RecordSetAlreadyExists ''a.sub.example.com.'' ''A'' ''dns2''), threeZoneAfterDelete)"
    using us by simp
  have h3: "\<not> dryRun liveProvider \<and>
      updateRequest exampleFramework liveProvider threeZoneChanges = Some threeZoneCombined \<and>
      zones liveProvider (mockClient inOrder) threeZoneClient = Ok threeZones \<and>
      separateChange exampleFramework inOrder threeZones threeZoneCombined =
        Some [(''dns1'', comRequest), (''dns2'', subRequest), (''dns3'', orgRequest)] \<and>
      rangeValues inOrder [(''dns1'', comRequest), (''dns2'', subRequest), (''dns3'', orgRequest)] =
        [comRequest] @ subRequest # [orgRequest] \<and>
      length [threeZoneClient, threeZoneAfterCom] = Suc (length [comRequest]) \<and>
      [threeZoneClient, threeZoneAfterCom] ! 0 = threeZoneClient \<and>
      (\<forall>i < length [comRequest].
         UpdateRecordSets_mock ([threeZoneClient, threeZoneAfterCom] ! i) ([comRequest] ! i) =
           (Ok (), [threeZoneClient, threeZoneAfterCom] ! Suc i)) \<and>
      UpdateRecordSets_mock ([threeZoneClient, threeZoneAfterCom] ! length [comRequest])
        subRequest =
        (Err (RecordSetAlreadyExists ''a.sub.example.com.'' ''A'' ''dns2''), threeZoneAfterDelete)"
    using n ex3_updateRequest ex3_zones_mock ex3_separate ex3_requests o f by simp
  from conflicting_records_rejected [where c = threeZoneClient and request = subRequest,
      THEN conjunct2, THEN conjunct2, THEN conjunct1, rule_format, OF h3]
  have g: "ApplyChanges exampleFramework inOrder liveProvider (mockClient inOrder) threeZoneClient
      threeZoneChanges =
      (Err (RecordSetAlreadyExists ''a.sub.example.com.'' ''A'' ''dns2''), threeZoneAfterDelete,
       [comRequest, subRequest])"
    by simp
  have h4: "reorderedA \<in> set [exampleTXT, reorderedA] \<and>
      storedRecordSet storedClient ''dns1'' reorderedA = Some exampleA \<and>
      RecordSet.Name reorderedA = RecordSet.Name exampleA \<and> Type reorderedA = Type exampleA \<and>
      Ttl reorderedA = Ttl exampleA \<and> mset (Data reorderedA) = mset (Data exampleA)"
    using ex_stored(2) by (simp add: reorderedA_def exampleA_def)
  from t [where request = subRequest,
      THEN conjunct2, THEN conjunct2, THEN conjunct2, THEN conjunct1, rule_format, OF h4]
  have e: "addRecords storedClient ''dns1'' [reorderedA] = (Ok (), storedClient) \<and>
      storedRecordSet (snd (addRecords storedClient ''dns1'' [exampleTXT, reorderedA])) ''dns1''
        reorderedA = Some exampleA" .
  have st: "storedRecordSet storedClient ''dns1'' exampleTXT = None"
    by (simp add: storedRecordSet_def storedClient_def getRecordSetKey_def exampleTXT_def)
  have h5: "map_of (recordSets storedClient) ''dns1'' \<noteq> None \<and>
      (\<forall>a \<in> set [exampleTXT, reorderedA]. \<forall>stored.
         storedRecordSet storedClient ''dns1'' a = Some stored \<longrightarrow>
         RecordSet.Name a = RecordSet.Name stored \<and> Type a = Type stored \<and>
         Ttl a = Ttl stored \<and> mset (Data a) = mset (Data stored))"
    using ex_stored(2) st by (simp add: storedClient_def reorderedA_def exampleA_def)
  from t [where request = subRequest,
      THEN conjunct2, THEN conjunct2, THEN conjunct2, THEN conjunct2, rule_format, OF h5]
  have k: "fst (addRecords storedClient ''dns1'' [exampleTXT, reorderedA]) = Ok ()" .
  from ex_stored dc da a sr ex3_delete_sub ex3_stored_sub ds b n ex3_updateRequest ex3_zones_mock
    ex3_separate ex3_requests ex3_update_com us g dr e k
  show ?thesis by blast
qed

text \<open>
  The claim C9 as stated fails. The deletions of a request are applied before its
  additions are checked, so an addition whose key is stored with different data is
  accepted when the same request deletes the stored record set; this is the request that
  \<^const>\<open>ApplyChanges\<close> builds for an update. And an addition that repeats a value of the
  stored record set in place of another one differs from it in data, but is accepted and
  leaves the stored record set as it is.
\<close>

theorem update_replaces_differing_record:
  "storedRecordSet storedClient ''dns1'' conflictingRecordSet = Some exampleA \<and>
   \<not> equalRecordSets conflictingRecordSet exampleA \<and>
   UpdateRecordSets_mock storedClient
     \<lparr>DnsZoneId = ''dns1'', Deletions = [exampleA], Additions = [conflictingRecordSet]\<rparr> =
     (Ok (), replacedClient) \<and>
   ApplyChanges exampleFramework inOrder liveProvider (mockClient inOrder) storedClient
     replacingChanges =
     (Ok (), replacedClient,
      [\<lparr>DnsZoneId = ''dns1'', Deletions = [exampleA], Additions = [conflictingRecordSet]\<rparr>]) \<and>
   storedRecordSet storedClient ''dns1'' repeatedA = Some exampleA \<and>
   Data repeatedA = [''192.0.2.1'', ''192.0.2.1''] \<and>
   Data exampleA = [''192.0.2.1'', ''192.0.2.2''] \<and>
   UpdateRecordSets_mock storedClient
     \<lparr>DnsZoneId = ''dns1'', Deletions = [], Additions = [repeatedA]\<rparr> = (Ok (), storedClient)"
proof -
  have ra: "storedRecordSet storedClient ''dns1'' repeatedA = Some exampleA"
    by (simp add: storedRecordSet_def storedClient_def getRecordSetKey_def repeatedA_def)
  have rd: "Data repeatedA = [''192.0.2.1'', ''192.0.2.1'']"
      "Data exampleA = [''192.0.2.1'', ''192.0.2.2'']"
    by (simp_all add: repeatedA_def exampleA_def)
  have re: "equalRecordSets repeatedA exampleA"
    by (simp add: equalRecordSets_def equalRecordSetsData_def repeatedA_def exampleA_def)
  have ru: "UpdateRecordSets_mock storedClient
     \<lparr>DnsZoneId = ''dns1'', Deletions = [], Additions = [repeatedA]\<rparr> = (Ok (), storedClient)"
    using re by (simp add: UpdateRecordSets_mock_def deleteRecords_def addRecords_def
      recordSetExists_iff ra)
  have u: "UpdateRecordSets_mock storedClient
     \<lparr>DnsZoneId = ''dns1'', Deletions = [exampleA], Additions = [conflictingRecordSet]\<rparr> =
     (Ok (), replacedClient)"
    by (simp add: UpdateRecordSets_mock_def deleteRecords_def addRecords_def
      recordSetExists_def storedRecordSet_def getRecordSetKey_def equalRecordSets_def
      equalRecordSetsData_def storedClient_def replacedClient_def conflictingRecordSet_def
      exampleA_def AList.delete_eq)
  have r: "updateRequest exampleFramework liveProvider replacingChanges =
     Some \<lparr>DnsZoneId = '''', Deletions = [exampleA], Additions = [conflictingRecordSet]\<rparr>"
    by (simp add: updateRequest_def endpointToRecordSet_def exampleFramework_defs liveProvider_def
      replacingChanges_def conflictingA_def conflictingRecordSet_def exampleA_def
      RecordTypeCNAME_def yandexRecordTTL_def)
  have sp: "separateChange exampleFramework inOrder [(''dns1'', exampleZone)]
     \<lparr>DnsZoneId = '''', Deletions = [exampleA], Additions = [conflictingRecordSet]\<rparr> =
     Some [(''dns1'', \<lparr>DnsZoneId = ''dns1'', Deletions = [exampleA], Additions = [conflictingRecordSet]\<rparr>)]"
    by (simp add: separateChange_def Let_def rangeValues_def rangeMap_def inOrder_def exampleZone_def
      FindZone_def HasSuffix_def exampleFramework_defs conflictingRecordSet_def exampleA_def)
  have e5: "rangeValues inOrder
      [(''dns1'', \<lparr>DnsZoneId = ''dns1'', Deletions = [exampleA], Additions = [conflictingRecordSet]\<rparr>)] =
      [\<lparr>DnsZoneId = ''dns1'', Deletions = [exampleA], Additions = [conflictingRecordSet]\<rparr>]"
    by (simp add: rangeValues_def rangeMap_def inOrder_def)
  have n: "\<not> dryRun liveProvider" by (simp add: liveProvider_def)
  have m: "UpdateRecordSets (mockClient inOrder) = UpdateRecordSets_mock"
    by (simp add: mockClient_def)
  have "ApplyChanges exampleFramework inOrder liveProvider (mockClient inOrder) storedClient
     replacingChanges =
     (Ok (), replacedClient,
      [\<lparr>DnsZoneId = ''dns1'', Deletions = [exampleA], Additions = [conflictingRecordSet]\<rparr>])"
    using n by (simp add: ApplyChanges_def r ex_zones sp e5 m u)
  with ex_stored(1) ex_differs(1) u ra rd ru show ?thesis by simp
qed

end
